theory Spec2Isabelle
  imports Complex_Main "HOL-Library.Word" "HOL-Library.AList"
begin

text \<open>
  The client layer of the policy project's browser application, as functions over explicit
  state: the notification channel (\<open>lib/toastBus\<close>), the shared transport with its two
  interceptors (\<open>api/client\<close>), and the document operations (\<open>api/documents\<close>): the
  list operation, the download trigger and the extraction of a file name from a
  \<open>Content-Disposition\<close> header. The definitions come first, then the properties.
\<close>

section \<open>Values and strings\<close>

text \<open>
  Strings that are only compared, concatenated and passed on (storage keys, tokens, header
  names, messages, paths, method names) are char lists. JavaScript numbers are modelled by
  the integers: the counts and status codes this layer handles. Fractions, NaN and the
  infinities are outside the model, and where the code divides, the model computes only
  where the division of doubles is known to agree with the exact one.
\<close>

datatype jsval =
    JUndefined
  | JNull
  | JBool bool
  | JNum int
  | JStr string
  | JArr "jsval list"
  | JObj "(string \<times> jsval) list"

text \<open>ToBoolean: what \<open>if (v)\<close>, \<open>v || d\<close> and \<open>!v\<close> test.\<close>

fun truthy :: "jsval \<Rightarrow> bool" where
  "truthy JUndefined = False"
| "truthy JNull = False"
| "truthy (JBool b) = b"
| "truthy (JNum n) = (n \<noteq> 0)"
| "truthy (JStr s) = (s \<noteq> [])"
| "truthy (JArr xs) = True"
| "truthy (JObj ps) = True"

text \<open>The white space \<open>String.prototype.trim\<close> strips, among the 8-bit characters.\<close>

definition is_space :: "char \<Rightarrow> bool" where
  "is_space c = (of_char c \<in> {9, 10, 11, 12, 13, 32, 160 :: nat})"

definition trim :: "string \<Rightarrow> string" where
  "trim s = rev (dropWhile is_space (rev (dropWhile is_space s)))"

definition startsWith :: "string \<Rightarrow> string \<Rightarrow> bool" where
  "startsWith s p = (take (length p) s = p)"

text \<open>Decimal digits of a number, as a template literal prints an integer.\<close>

fun show_nat :: "nat \<Rightarrow> string" where
  "show_nat n =
     (if n < 10 then [char_of (48 + n)]
      else show_nat (n div 10) @ [char_of (48 + n mod 10)])"

declare show_nat.simps [simp del]

definition show_int :: "int \<Rightarrow> string" where
  "show_int i = (if i < 0 then CHR ''-'' # show_nat (nat (- i)) else show_nat (nat i))"

section \<open>lib/toastBus: the notification channel\<close>

datatype ToastType = Success | Error | Warning | Info

text \<open>A notification; \<open>toast_type\<close> is its field \<open>type\<close>.\<close>

record ToastMessage =
  message :: string
  toast_type :: "ToastType option"
  durationMs :: "nat option"

text \<open>
  A listener is a function object; what identifies it is modelled by a number. The module
  variable \<open>listeners\<close> is a JavaScript \<open>Set\<close>: its entries in insertion order, where a
  deleted entry leaves an empty slot behind (\<open>None\<close>), as the language defines it.
\<close>

type_synonym listener = nat

type_synonym set_data = "listener option list"

definition set_add :: "set_data \<Rightarrow> listener \<Rightarrow> set_data" where
  "set_add es l = (if Some l \<in> set es then es else es @ [Some l])"

definition set_delete :: "set_data \<Rightarrow> listener \<Rightarrow> set_data" where
  "set_delete es l = map (\<lambda>e. if e = Some l then None else e) es"

text \<open>
  \<open>subscribeToasts(listener)\<close> adds the listener; the function it returns deletes it.
\<close>

definition subscribeToasts :: "listener \<Rightarrow> set_data \<Rightarrow> set_data" where
  "subscribeToasts l es = set_add es l"

definition unsubscribe :: "listener \<Rightarrow> set_data \<Rightarrow> set_data" where
  "unsubscribe l es = set_delete es l"

text \<open>
  What a listener does to the channel while it handles a notification: the calls of
  \<open>subscribeToasts\<close> and of unsubscribe functions that it makes, in order.
\<close>

datatype bus_action = Subscribe listener | Unsubscribe listener

fun act :: "set_data \<Rightarrow> bus_action \<Rightarrow> set_data" where
  "act es (Subscribe l) = subscribeToasts l es"
| "act es (Unsubscribe l) = unsubscribe l es"

text \<open>
  \<open>Set.prototype.forEach\<close>: it walks the entries by index and reads the length again after
  every call, so entries added during the walk are visited and entries deleted before their
  turn are not. The walk need not end (a listener may delete and add itself again); not
  returning is \<open>None\<close>. The result is the set afterwards and the listeners called, in order.
\<close>

partial_function (option) forEach_from ::
  "(listener \<Rightarrow> bus_action list) \<Rightarrow> nat \<Rightarrow> set_data \<Rightarrow> listener list
     \<Rightarrow> (set_data \<times> listener list) option"
where
  "forEach_from body i es called =
     (if i < length es then
        (case es ! i of
           None \<Rightarrow> forEach_from body (Suc i) es called
         | Some l \<Rightarrow> forEach_from body (Suc i) (foldl act es (body l)) (called @ [l]))
      else Some (es, called))"

definition publishToast ::
  "(listener \<Rightarrow> ToastMessage \<Rightarrow> bus_action list) \<Rightarrow> ToastMessage \<Rightarrow> set_data
     \<Rightarrow> (set_data \<times> listener list) option"
where
  "publishToast handlers toast es = forEach_from (\<lambda>l. handlers l toast) 0 es []"

text \<open>The listeners in a set, in registration order.\<close>

fun live :: "set_data \<Rightarrow> listener list" where
  "live [] = []"
| "live (None # es) = live es"
| "live (Some l # es) = l # live es"

section \<open>api/client: the shared transport\<close>

record AxiosResponse =
  status :: int
  data :: jsval

text \<open>
  An \<open>AxiosError\<close> as the interceptors read it: \<open>error.code\<close>, \<open>error.message\<close>
  (the field \<open>err_message\<close>) and \<open>error.response\<close>, each of which may be absent.
\<close>

record AxiosError =
  code :: "string option"
  err_message :: "string option"
  response :: "AxiosResponse option"

text \<open>
  Everything the interceptors do to the browser is an effect, recorded in call order:
  a call of \<open>publishToast\<close>, a \<open>localStorage.removeItem\<close>, an assignment to
  \<open>window.location.href\<close>. The interceptors are modelled up to the call of
  \<open>publishToast\<close>; what the call does with the listeners is the channel's part above.
  The assignment starts a navigation; the path of the current page stays as it is
  meanwhile.
\<close>

datatype effect =
    PublishToast ToastMessage
  | RemoveItem string
  | Navigate string

text \<open>
  The ambient state: \<open>localStorage\<close>, \<open>window.location.pathname\<close>, the two module
  variables of the deduplicator and the effects so far.
\<close>

record world =
  storage :: "string \<rightharpoonup> string"
  pathname :: string
  lastToastKey :: string
  lastToastAt :: int
  effects :: "effect list"

definition MUTATING_METHODS :: "string set" where
  "MUTATING_METHODS = {''POST'', ''PUT'', ''PATCH'', ''DELETE''}"

definition ERROR_TOAST_DEDUP_WINDOW_MS :: int where
  "ERROR_TOAST_DEDUP_WINDOW_MS = 3000"

definition publish :: "ToastMessage \<Rightarrow> world \<Rightarrow> world" where
  "publish toast w = w\<lparr>effects := effects w @ [PublishToast toast]\<rparr>"

definition removeItem :: "string \<Rightarrow> world \<Rightarrow> world" where
  "removeItem k w = w\<lparr>storage := (storage w)(k := None), effects := effects w @ [RemoveItem k]\<rparr>"

definition set_href :: "string \<Rightarrow> world \<Rightarrow> world" where
  "set_href u w = w\<lparr>effects := effects w @ [Navigate u]\<rparr>"

text \<open>\<open>error.response?.data\<close>\<close>

definition responseData :: "AxiosError \<Rightarrow> jsval" where
  "responseData err = (case response err of None \<Rightarrow> JUndefined | Some r \<Rightarrow> data r)"

text \<open>The last two steps of \<open>extractErrorMessage\<close>: \<open>error.message\<close>, then the fixed text.\<close>

definition messageOrDefault :: "AxiosError \<Rightarrow> string" where
  "messageOrDefault err =
     (case err_message err of
        Some m \<Rightarrow> if trim m \<noteq> [] then m else ''Unexpected network error. Please try again.''
      | None \<Rightarrow> ''Unexpected network error. Please try again.'')"

definition extractErrorMessage :: "AxiosError \<Rightarrow> string" where
  "extractErrorMessage err =
     (case responseData err of
        JStr s \<Rightarrow> if trim s \<noteq> [] then s else messageOrDefault err
      | JObj ps \<Rightarrow>
          (case map_of ps ''detail'' of
             Some (JStr d) \<Rightarrow> if trim d \<noteq> [] then d else messageOrDefault err
           | _ \<Rightarrow> messageOrDefault err)
      | _ \<Rightarrow> messageOrDefault err)"

text \<open>The key \<open>`${status}:${message}`\<close>, with \<open>'network'\<close> when there is no response.\<close>

definition toastKey :: "AxiosError \<Rightarrow> string" where
  "toastKey err =
     (case response err of None \<Rightarrow> ''network'' | Some r \<Rightarrow> show_int (status r))
       @ '':'' @ extractErrorMessage err"

text \<open>\<open>now\<close> is the value \<open>Date.now()\<close> returns inside the call.\<close>

definition publishErrorToast :: "AxiosError \<Rightarrow> int \<Rightarrow> world \<Rightarrow> world" where
  "publishErrorToast err now w =
     (let msg = extractErrorMessage err;
          key = toastKey err
      in if key = lastToastKey w \<and> now - lastToastAt w < ERROR_TOAST_DEDUP_WINDOW_MS then w
         else publish \<lparr>message = msg, toast_type = Some Error, durationMs = None\<rparr>
                (w\<lparr>lastToastKey := key, lastToastAt := now\<rparr>))"

text \<open>
  The response interceptor's failure handler. Its result is the rejected promise
  (\<open>Inl\<close> of the error it rejects with) and the world after its effects.
\<close>

definition is401 :: "AxiosError \<Rightarrow> bool" where
  "is401 err = (case response err of None \<Rightarrow> False | Some r \<Rightarrow> status r = 401)"

definition onRejected :: "AxiosError \<Rightarrow> int \<Rightarrow> world \<Rightarrow> (AxiosError + AxiosResponse) \<times> world" where
  "onRejected err now w =
     (if is401 err then
        let w1 = publish \<lparr>message = ''Session expired. Please log in again.'',
                          toast_type = Some Warning, durationMs = None\<rparr> w;
            w2 = removeItem ''access_token'' w1;
            w3 = removeItem ''csrf_token'' w2;
            w4 = removeItem ''user'' w3;
            w5 = (if \<not> startsWith (pathname w4) ''/login'' then set_href ''/login'' w4 else w4)
        in (Inl err, w5)
      else
        let w1 = (if code err \<noteq> Some ''ERR_CANCELED'' then publishErrorToast err now w else w)
        in (Inl err, w1))"

text \<open>
  The request configuration: the interceptor reads \<open>config.method\<close> (the field
  \<open>req_method\<close>) and writes \<open>config.headers\<close>; every other part of the request
  (url, params, body, ...) is the record's extension.
\<close>

record InternalAxiosRequestConfig =
  req_method :: "string option"
  headers :: "string \<rightharpoonup> string"

text \<open>
  \<open>String.prototype.toUpperCase\<close> on the ASCII letters. Other characters stay as they
  are: no name of \<open>MUTATING_METHODS\<close> is made of them.
\<close>

definition upper_char :: "char \<Rightarrow> char" where
  "upper_char c =
     (let n = (of_char c :: nat) in if 97 \<le> n \<and> n \<le> 122 then char_of (n - 32) else c)"

definition toUpperCase :: "string \<Rightarrow> string" where
  "toUpperCase s = map upper_char s"

text \<open>\<open>if (v)\<close> on the result of \<open>localStorage.getItem\<close>: a stored, non-empty string.\<close>

definition getItem_truthy :: "(string \<rightharpoonup> string) \<Rightarrow> string \<Rightarrow> string option" where
  "getItem_truthy st k = (case st k of Some v \<Rightarrow> if v \<noteq> [] then Some v else None | None \<Rightarrow> None)"

definition requestMethod :: "('a InternalAxiosRequestConfig_scheme) \<Rightarrow> string" where
  "requestMethod config =
     toUpperCase (case req_method config of Some m \<Rightarrow> if m \<noteq> [] then m else ''GET'' | None \<Rightarrow> ''GET'')"

definition onRequest ::
  "(string \<rightharpoonup> string) \<Rightarrow> 'a InternalAxiosRequestConfig_scheme \<Rightarrow> 'a InternalAxiosRequestConfig_scheme"
where
  "onRequest st config =
     (let c1 = (case getItem_truthy st ''access_token'' of
                  Some token \<Rightarrow> config\<lparr>headers := (headers config)(''Authorization'' \<mapsto> ''Bearer '' @ token)\<rparr>
                | None \<Rightarrow> config);
          c2 = (if requestMethod c1 \<in> MUTATING_METHODS then
                  (case getItem_truthy st ''csrf_token'' of
                     Some csrfToken \<Rightarrow> c1\<lparr>headers := (headers c1)(''x-csrf-token'' \<mapsto> csrfToken)\<rparr>
                   | None \<Rightarrow> c1)
                else c1)
      in c2)"

text \<open>
  A run of failed requests through the response interceptor, one after the other (handler
  bodies run to completion, so failures are handled in sequence): each entry is the
  failure and the clock reading of its call.
\<close>

fun onRejected_all :: "(AxiosError \<times> int) list \<Rightarrow> world \<Rightarrow> world" where
  "onRejected_all [] w = w"
| "onRejected_all ((err, now) # rest) w = onRejected_all rest (snd (onRejected err now w))"

text \<open>The notifications handed to \<open>publishToast\<close> so far, in order.\<close>

fun published :: "effect list \<Rightarrow> ToastMessage list" where
  "published [] = []"
| "published (PublishToast t # es) = t # published es"
| "published (_ # es) = published es"

text \<open>A failure the interceptor treats as generic: not a 401, not marked cancelled.\<close>

definition generic :: "AxiosError \<Rightarrow> bool" where
  "generic err = (\<not> is401 err \<and> code err \<noteq> Some ''ERR_CANCELED'')"

section \<open>api/documents: the list operation\<close>

text \<open>
  A JavaScript object is the list of its own properties; a property is read by key
  (\<open>undefined\<close> when there is none, or when the value read from is not an object).
\<close>

type_synonym jsobject = "(string \<times> jsval) list"

definition get_prop :: "jsval \<Rightarrow> string \<Rightarrow> jsval" where
  "get_prop v k =
     (case v of
        JObj ps \<Rightarrow> (case map_of ps k of Some x \<Rightarrow> x | None \<Rightarrow> JUndefined)
      | _ \<Rightarrow> JUndefined)"

text \<open>\<open>a || b\<close>\<close>

definition js_or :: "jsval \<Rightarrow> jsval \<Rightarrow> jsval" where
  "js_or a b = (if truthy a then a else b)"

text \<open>
  The properties \<open>...v\<close> copies into an object literal: the own properties of an object,
  the indexed elements of an array, the indexed characters of a string, nothing for the
  other values.
\<close>

fun index_props :: "nat \<Rightarrow> jsval list \<Rightarrow> (string \<times> jsval) list" where
  "index_props i [] = []"
| "index_props i (x # xs) = (show_nat i, x) # index_props (Suc i) xs"

definition spread_props :: "jsval \<Rightarrow> (string \<times> jsval) list" where
  "spread_props v =
     (case v of
        JObj ps \<Rightarrow> map (\<lambda>k. (k, get_prop v k)) (remdups (map fst ps))
      | JArr xs \<Rightarrow> index_props 0 xs
      | JStr s \<Rightarrow> index_props 0 (map (\<lambda>c. JStr [c]) s)
      | _ \<Rightarrow> [])"

text \<open>Writing properties into an object in order: a later one replaces an earlier one.\<close>

fun assign :: "jsobject \<Rightarrow> (string \<times> jsval) list \<Rightarrow> jsobject" where
  "assign obj [] = obj"
| "assign obj ((k, v) # ps) = assign (AList.update k v obj) ps"

text \<open>
  Of the filters only \<open>limit\<close> and \<open>page\<close> reach the result; the other optional
  fields (status, classification, country, min_confidence, skip, search,
  crawl_session_id) only go into the query string, and are the record's extension.
\<close>

record DocumentFilters =
  limit :: "int option"
  page :: "int option"

definition EMPTY_RESPONSE :: jsobject where
  "EMPTY_RESPONSE =
     [(''documents'', JArr []), (''total'', JNum 0), (''limit'', JNum 20), (''offset'', JNum 0),
      (''has_more'', JBool False), (''items'', JArr []), (''pages'', JNum 1), (''page'', JNum 1),
      (''page_size'', JNum 20)]"

text \<open>
  What \<open>await client.get(...)\<close> does: it throws the failure the transport rejected with,
  or yields the value the transport resolved with (an object with a \<open>data\<close> property,
  when it is a response).
\<close>

datatype outcome = Rejected AxiosError | Resolved jsval

text \<open>What the \<open>try\<close> block can throw.\<close>

datatype thrown = RequestFailed AxiosError | TypeError

text \<open>\<open>filters.limit || 20\<close> and \<open>filters.page || 1\<close>: an absent or zero number is falsy.\<close>

definition number_or :: "int option \<Rightarrow> int \<Rightarrow> jsval" where
  "number_or n d = (case n of Some i \<Rightarrow> if i \<noteq> 0 then JNum i else JNum d | None \<Rightarrow> JNum d)"

text \<open>
  The integers a double holds exactly and apart from their neighbours: up to
  \<open>Number.MAX_SAFE_INTEGER\<close>, which is \<open>2^53 - 1\<close>, in absolute value.
\<close>

definition safe_integer :: "int \<Rightarrow> bool" where
  "safe_integer n = (\<bar>n\<bar> \<le> 9007199254740991)"

text \<open>
  \<open>Math.ceil(total / limit) || 1\<close>. The division is a division of doubles. For two safe
  integers, the divisor not 0, the rounded quotient lies on the same side of every integer
  as the exact one (a quotient that is not an integer is at least \<open>1 / limit\<close> away from
  the next integer, more than half the spacing of the doubles there), so its ceiling is
  the ceiling of the exact quotient; and 0 divided by anything has a ceiling that is
  falsy. Only there is the result computed here. For larger numbers the quotient is
  rounded, and for a truthy \<open>total\<close> or \<open>limit\<close> that is not a number JavaScript coerces
  it; what the expression yields then is left open as the parameter \<open>coerced\<close>.
\<close>

definition pages_of :: "(jsval \<Rightarrow> jsval \<Rightarrow> jsval) \<Rightarrow> jsval \<Rightarrow> jsval \<Rightarrow> jsval" where
  "pages_of coerced tot lmt =
     (case (tot, lmt) of
        (JNum t, JNum l) \<Rightarrow>
          if t = 0 \<or> (l \<noteq> 0 \<and> safe_integer t \<and> safe_integer l) then
            (let c = \<lceil>rat_of_int t / rat_of_int l\<rceil> in if c \<noteq> 0 then JNum c else JNum 1)
          else coerced tot lmt
      | _ \<Rightarrow> coerced tot lmt)"

text \<open>The three \<open>const\<close> lines after \<open>const data = response.data || {}\<close>.\<close>

definition docs_of :: "jsval \<Rightarrow> jsval" where
  "docs_of dat = js_or (get_prop dat ''documents'') (JArr [])"

definition total_of :: "jsval \<Rightarrow> jsval" where
  "total_of dat = js_or (get_prop dat ''total'') (JNum 0)"

definition limit_of :: "'a DocumentFilters_scheme \<Rightarrow> jsval \<Rightarrow> jsval" where
  "limit_of filters dat = js_or (get_prop dat ''limit'') (number_or (limit filters) 20)"

text \<open>
  The body of the \<open>try\<close> block. Building the query parameters decides only what is sent
  and cannot throw (\<open>toString\<close> of a string or a number). Reading \<open>response.data\<close>
  throws a TypeError when the awaited value is \<open>undefined\<close> or \<open>null\<close>.
\<close>

definition getDocuments_try ::
  "(jsval \<Rightarrow> jsval \<Rightarrow> jsval) \<Rightarrow> 'a DocumentFilters_scheme \<Rightarrow> outcome \<Rightarrow> thrown + jsobject"
where
  "getDocuments_try coerced filters oc =
     (case oc of
        Rejected err \<Rightarrow> Inl (RequestFailed err)
      | Resolved resp \<Rightarrow>
          if resp = JUndefined \<or> resp = JNull then Inl TypeError
          else
            (let dat = js_or (get_prop resp ''data'') (JObj []);
                 docs = docs_of dat;
                 tot = total_of dat;
                 lmt = limit_of filters dat
             in Inr (assign (assign (assign [] EMPTY_RESPONSE) (spread_props dat))
                   [(''documents'', docs), (''items'', docs), (''total'', tot),
                    (''pages'', pages_of coerced tot lmt),
                    (''page'', number_or (page filters) 1),
                    (''page_size'', lmt)])))"

text \<open>
  \<open>getDocuments\<close>: the promise it returns is rejected (\<open>Inl\<close>) or fulfilled with an
  object (\<open>Inr\<close>). The \<open>catch\<close> turns whatever the block throws into \<open>EMPTY_RESPONSE\<close>.
\<close>

definition getDocuments ::
  "(jsval \<Rightarrow> jsval \<Rightarrow> jsval) \<Rightarrow> 'a DocumentFilters_scheme \<Rightarrow> outcome \<Rightarrow> thrown + jsobject"
where
  "getDocuments coerced filters oc =
     (case getDocuments_try coerced filters oc of
        Inl err \<Rightarrow> Inr EMPTY_RESPONSE
      | Inr result \<Rightarrow> Inr result)"

section \<open>api/documents: the download trigger\<close>

text \<open>
  The browser calls \<open>triggerBrowserDownload\<close> makes, in order. Any of them may throw
  (\<open>document.body\<close> may be \<open>null\<close>, a handler of the click may fail, the environment may
  lack the URL API); which do is a parameter of the browser.
\<close>

datatype dom_call =
    CreateObjectURL
  | CreateElement
  | AppendChild
  | Click
  | RemoveChild
  | RevokeObjectURL

text \<open>What has happened in the browser: the calls that returned, with what they act on.\<close>

datatype dom_effect =
    CreatedObjectURL string
  | AppendedLink string string
  | Clicked string string
  | RemovedLink
  | RevokedObjectURL string

text \<open>
  The browser: the URL \<open>createObjectURL\<close> hands out for a blob, and the calls that throw.
\<close>

record 'b browser =
  objectURL :: "'b \<Rightarrow> string"
  throws :: "dom_call \<Rightarrow> bool"

text \<open>
  The function has no \<open>try\<close>: the first call that throws ends it, and the exception
  (\<open>Inl\<close> of the call that threw) goes to the caller.
\<close>

definition triggerBrowserDownload ::
  "'b browser \<Rightarrow> 'b \<Rightarrow> string \<Rightarrow> (dom_call + unit) \<times> dom_effect list"
where
  "triggerBrowserDownload b blob filename =
     (if throws b CreateObjectURL then (Inl CreateObjectURL, [])
      else let url = objectURL b blob in
        if throws b CreateElement then (Inl CreateElement, [CreatedObjectURL url])
        else if throws b AppendChild then (Inl AppendChild, [CreatedObjectURL url])
        else if throws b Click then
          (Inl Click, [CreatedObjectURL url, AppendedLink url filename])
        else if throws b RemoveChild then
          (Inl RemoveChild,
           [CreatedObjectURL url, AppendedLink url filename, Clicked url filename])
        else if throws b RevokeObjectURL then
          (Inl RevokeObjectURL,
           [CreatedObjectURL url, AppendedLink url filename, Clicked url filename, RemovedLink])
        else
          (Inr (),
           [CreatedObjectURL url, AppendedLink url filename, Clicked url filename, RemovedLink,
            RevokedObjectURL url]))"

section \<open>api/documents: file names\<close>

text \<open>
  A file name travels percent-encoded, so its text is modelled as JavaScript has it: a
  sequence of 16-bit code units (UTF-16).
\<close>

type_synonym jsstring = "16 word list"

text \<open>An ASCII literal as code units.\<close>

definition js :: "string \<Rightarrow> jsstring" where
  "js s = map (\<lambda>c. of_nat (of_char c)) s"

subsection \<open>The two regular expressions\<close>

text \<open>
  Matching with the \<open>i\<close> flag and no \<open>u\<close> flag: an ASCII letter of the pattern matches
  its two cases, and nothing outside ASCII.
\<close>

definition lower_unit :: "16 word \<Rightarrow> 16 word" where
  "lower_unit c = (if 65 \<le> unat c \<and> unat c \<le> 90 then c + 32 else c)"

text \<open>A literal pattern at the start of the text: what follows it, when it matches.\<close>

fun match_ci :: "jsstring \<Rightarrow> jsstring \<Rightarrow> jsstring option" where
  "match_ci [] s = Some s"
| "match_ci (p # ps) [] = None"
| "match_ci (p # ps) (c # cs) = (if lower_unit c = lower_unit p then match_ci ps cs else None)"

text \<open>
  \<open>/filename\*=UTF-8''([^;]+)/i\<close> at one start position: the capture is the longest run
  without a semicolon, and has to be non-empty.
\<close>

definition utf8_at :: "jsstring \<Rightarrow> jsstring option" where
  "utf8_at s =
     (case match_ci (js ''filename*=UTF-8'' @ [39, 39]) s of
        None \<Rightarrow> None
      | Some r \<Rightarrow> (let cap = takeWhile (\<lambda>c. c \<noteq> 59) r in if cap = [] then None else Some cap))"

text \<open>
  \<open>/filename="?([^"]+)"?/i\<close> at one start position. When a quote follows the \<open>=\<close>, the
  capture starts after it (a match that leaves the quote to \<open>[^"]+\<close> cannot succeed); the
  capture is the longest run without a quote, and has to be non-empty.
\<close>

definition plain_at :: "jsstring \<Rightarrow> jsstring option" where
  "plain_at s =
     (case match_ci (js ''filename='') s of
        None \<Rightarrow> None
      | Some r \<Rightarrow>
          (let body = (case r of [] \<Rightarrow> [] | q # r' \<Rightarrow> if q = 34 then r' else r);
               cap = takeWhile (\<lambda>c. c \<noteq> 34) body
           in if cap = [] then None else Some cap))"

text \<open>\<open>exec\<close>: the first start position, from the left, at which the pattern matches.\<close>

fun exec_from :: "(jsstring \<Rightarrow> jsstring option) \<Rightarrow> jsstring \<Rightarrow> jsstring option" where
  "exec_from try_at [] = try_at []"
| "exec_from try_at (c # cs) =
     (case try_at (c # cs) of Some cap \<Rightarrow> Some cap | None \<Rightarrow> exec_from try_at cs)"

subsection \<open>Percent-encoding\<close>

text \<open>
  \<open>encodeURIComponent\<close> and \<open>decodeURIComponent\<close> as the language defines them, in two
  steps each: between the text and the escaped text stands a list of tokens, a code unit
  kept as it is or an octet written \<open>%XX\<close>.
\<close>

datatype token = Unit "16 word" | Octet nat

definition hexval :: "16 word \<Rightarrow> nat option" where
  "hexval c =
     (let n = unat c
      in if 48 \<le> n \<and> n \<le> 57 then Some (n - 48)
         else if 65 \<le> n \<and> n \<le> 70 then Some (n - 55)
         else if 97 \<le> n \<and> n \<le> 102 then Some (n - 87)
         else None)"

definition hexdigit :: "nat \<Rightarrow> 16 word" where
  "hexdigit n = of_nat (if n < 10 then 48 + n else 55 + n)"

text \<open>The characters \<open>encodeURIComponent\<close> leaves alone: letters, digits and \<open>-_.!~*'()\<close>.\<close>

definition unreserved :: "16 word \<Rightarrow> bool" where
  "unreserved c =
     (let n = unat c
      in (65 \<le> n \<and> n \<le> 90) \<or> (97 \<le> n \<and> n \<le> 122) \<or> (48 \<le> n \<and> n \<le> 57)
         \<or> n \<in> {45, 95, 46, 33, 126, 42, 39, 40, 41})"

definition is_lead :: "16 word \<Rightarrow> bool" where
  "is_lead c = (55296 \<le> unat c \<and> unat c < 56320)"

definition is_trail :: "16 word \<Rightarrow> bool" where
  "is_trail c = (56320 \<le> unat c \<and> unat c < 57344)"

definition code_point :: "16 word \<Rightarrow> 16 word \<Rightarrow> nat" where
  "code_point c d = 65536 + (unat c - 55296) * 1024 + (unat d - 56320)"

definition utf16 :: "nat \<Rightarrow> jsstring" where
  "utf16 v =
     (if v < 65536 then [of_nat v]
      else [of_nat (55296 + (v - 65536) div 1024), of_nat (56320 + (v - 65536) mod 1024)])"

definition utf8_octets :: "nat \<Rightarrow> nat list" where
  "utf8_octets v =
     (if v < 128 then [v]
      else if v < 2048 then [192 + v div 64, 128 + v mod 64]
      else if v < 65536 then [224 + v div 4096, 128 + (v div 64) mod 64, 128 + v mod 64]
      else [240 + v div 262144, 128 + (v div 4096) mod 64, 128 + (v div 64) mod 64,
            128 + v mod 64])"

text \<open>An unpaired surrogate has no encoding: \<open>encodeURIComponent\<close> throws (\<open>None\<close>).\<close>

fun uri_tokens :: "jsstring \<Rightarrow> token list option" where
  "uri_tokens [] = Some []"
| "uri_tokens (c # cs) =
     (if unreserved c then map_option ((#) (Unit c)) (uri_tokens cs)
      else if is_lead c then
        (case cs of
           [] \<Rightarrow> None
         | d # ds \<Rightarrow>
             if is_trail d
             then map_option ((@) (map Octet (utf8_octets (code_point c d)))) (uri_tokens ds)
             else None)
      else if is_trail c then None
      else map_option ((@) (map Octet (utf8_octets (unat c)))) (uri_tokens cs))"

fun render :: "token \<Rightarrow> jsstring" where
  "render (Unit c) = [c]"
| "render (Octet b) = [37, hexdigit (b div 16), hexdigit (b mod 16)]"

definition encodeURIComponent :: "jsstring \<Rightarrow> jsstring option" where
  "encodeURIComponent s = map_option (\<lambda>ts. concat (map render ts)) (uri_tokens s)"

text \<open>
  Decoding. Every \<open>%\<close> has to be followed by two hexadecimal digits; the octets have to
  form well-formed UTF-8 (no stray continuation octet, no overlong form, no surrogate,
  nothing above U+10FFFF). Anything else throws a URIError (\<open>None\<close>).
\<close>

fun percent_tokens :: "jsstring \<Rightarrow> token list option" where
  "percent_tokens [] = Some []"
| "percent_tokens (c # cs) =
     (if c = 37 then
        (case cs of
           h1 # h2 # r \<Rightarrow>
             (case (hexval h1, hexval h2) of
                (Some a, Some b) \<Rightarrow> map_option ((#) (Octet (16 * a + b))) (percent_tokens r)
              | _ \<Rightarrow> None)
         | _ \<Rightarrow> None)
      else map_option ((#) (Unit c)) (percent_tokens cs))"

definition continuation :: "nat \<Rightarrow> bool" where
  "continuation b = (128 \<le> b \<and> b < 192)"

definition utf8_value2 :: "nat \<Rightarrow> nat \<Rightarrow> nat option" where
  "utf8_value2 b1 b2 =
     (let v = (b1 - 192) * 64 + (b2 - 128)
      in if continuation b2 \<and> 128 \<le> v then Some v else None)"

definition utf8_value3 :: "nat \<Rightarrow> nat \<Rightarrow> nat \<Rightarrow> nat option" where
  "utf8_value3 b1 b2 b3 =
     (let v = (b1 - 224) * 4096 + (b2 - 128) * 64 + (b3 - 128)
      in if continuation b2 \<and> continuation b3 \<and> 2048 \<le> v \<and> \<not> (55296 \<le> v \<and> v < 57344)
         then Some v else None)"

definition utf8_value4 :: "nat \<Rightarrow> nat \<Rightarrow> nat \<Rightarrow> nat \<Rightarrow> nat option" where
  "utf8_value4 b1 b2 b3 b4 =
     (let v = (b1 - 240) * 262144 + (b2 - 128) * 4096 + (b3 - 128) * 64 + (b4 - 128)
      in if continuation b2 \<and> continuation b3 \<and> continuation b4 \<and> 65536 \<le> v \<and> v < 1114112
         then Some v else None)"

fun utf8_units :: "token list \<Rightarrow> jsstring option" where
  "utf8_units [] = Some []"
| "utf8_units (Unit c # ts) = map_option ((#) c) (utf8_units ts)"
| "utf8_units (Octet b # ts) =
     (if b < 128 then map_option ((#) (of_nat b)) (utf8_units ts)
      else if b < 192 then None
      else if b < 224 then
        (case ts of
           Octet b2 # r \<Rightarrow>
             (case utf8_value2 b b2 of
                Some v \<Rightarrow> map_option ((@) (utf16 v)) (utf8_units r)
              | None \<Rightarrow> None)
         | _ \<Rightarrow> None)
      else if b < 240 then
        (case ts of
           Octet b2 # Octet b3 # r \<Rightarrow>
             (case utf8_value3 b b2 b3 of
                Some v \<Rightarrow> map_option ((@) (utf16 v)) (utf8_units r)
              | None \<Rightarrow> None)
         | _ \<Rightarrow> None)
      else if b < 248 then
        (case ts of
           Octet b2 # Octet b3 # Octet b4 # r \<Rightarrow>
             (case utf8_value4 b b2 b3 b4 of
                Some v \<Rightarrow> map_option ((@) (utf16 v)) (utf8_units r)
              | None \<Rightarrow> None)
         | _ \<Rightarrow> None)
      else None)"

definition decodeURIComponent :: "jsstring \<Rightarrow> jsstring option" where
  "decodeURIComponent s = (case percent_tokens s of None \<Rightarrow> None | Some ts \<Rightarrow> utf8_units ts)"

subsection \<open>extractFilename\<close>

text \<open>The header is \<open>undefined\<close> (\<open>None\<close>) or a string; the empty string is falsy too.\<close>

definition extractFilename :: "jsstring option \<Rightarrow> jsstring \<Rightarrow> jsstring" where
  "extractFilename contentDisposition fallback =
     (case contentDisposition of
        None \<Rightarrow> fallback
      | Some cd \<Rightarrow>
          if cd = [] then fallback
          else
            (case exec_from utf8_at cd of
               Some cap \<Rightarrow> (case decodeURIComponent cap of Some name \<Rightarrow> name | None \<Rightarrow> cap)
             | None \<Rightarrow>
                 (case exec_from plain_at cd of
                    Some cap \<Rightarrow> cap
                  | None \<Rightarrow> fallback)))"

section \<open>Notions for stating the properties\<close>

text \<open>What the deduplicator tests before it drops a notification.\<close>

definition suppressed :: "string \<Rightarrow> int \<Rightarrow> world \<Rightarrow> bool" where
  "suppressed key now w = (key = lastToastKey w \<and> now - lastToastAt w < 3000)"

text \<open>The two notifications the response interceptor publishes.\<close>

definition sessionExpiredToast :: ToastMessage where
  "sessionExpiredToast =
     \<lparr>message = ''Session expired. Please log in again.'', toast_type = Some Warning,
      durationMs = None\<rparr>"

definition errorToast :: "AxiosError \<Rightarrow> ToastMessage" where
  "errorToast err =
     \<lparr>message = extractErrorMessage err, toast_type = Some Error, durationMs = None\<rparr>"

text \<open>
  Shapes of a run of failures, each read against the clock of the failure before it
  (\<open>prev\<close>): every gap is under 3000 ms, or every gap is at least 3000 ms.
\<close>

fun consecutive_within :: "int \<Rightarrow> (AxiosError \<times> int) list \<Rightarrow> bool" where
  "consecutive_within prev [] = True"
| "consecutive_within prev ((err, now) # rest) =
     (0 \<le> now - prev \<and> now - prev < 3000 \<and> consecutive_within now rest)"

fun spaced :: "int \<Rightarrow> (AxiosError \<times> int) list \<Rightarrow> bool" where
  "spaced prev [] = True"
| "spaced prev ((err, now) # rest) = (3000 \<le> now - prev \<and> spaced now rest)"

text \<open>The bound on the length of a set whose listeners are drawn from \<open>{..<N}\<close>.\<close>

definition room :: "nat \<Rightarrow> set_data \<Rightarrow> nat" where
  "room N es = (N - card (set (live es))) + length es"

text \<open>A listener body that only registers listeners, all of them below \<open>N\<close>.\<close>

definition only_subscribes :: "nat \<Rightarrow> bus_action list \<Rightarrow> bool" where
  "only_subscribes N acts = (\<forall>a \<in> set acts. \<exists>g. a = Subscribe g \<and> g < N)"

text \<open>The header the round trip starts from, up to the encoded name.\<close>

definition headerPrefix :: jsstring where
  "headerPrefix = js ''attachment; filename*=UTF-8'' @ [39, 39]"

text \<open>The tokens \<open>encodeURIComponent\<close> produces: never a bare \<open>%\<close>, octets below 256.\<close>

fun wf_token :: "token \<Rightarrow> bool" where
  "wf_token (Unit c) = (unreserved c)"
| "wf_token (Octet b) = (b < 256)"

text \<open>A Unicode scalar value: a code point that is not a surrogate.\<close>

definition scalar :: "nat \<Rightarrow> bool" where
  "scalar v = (v < 1114112 \<and> \<not> (55296 \<le> v \<and> v < 57344))"

section \<open>Sample inputs\<close>

text \<open>The state of a freshly loaded page with a signed-in user, away from the login page.\<close>

definition page_world :: world where
  "page_world =
     \<lparr>storage = [''access_token'' \<mapsto> ''abc'', ''csrf_token'' \<mapsto> ''xyz'', ''user'' \<mapsto> ''u'',
                 ''theme'' \<mapsto> ''dark''],
      pathname = ''/library'', lastToastKey = [], lastToastAt = 0, effects = []\<rparr>"

definition serverError :: AxiosError where
  "serverError =
     \<lparr>code = Some ''ERR_BAD_RESPONSE'', err_message = Some ''Request failed'',
      response = Some \<lparr>status = 500, data = JStr ''boom''\<rparr>\<rparr>"

definition unauthorizedError :: AxiosError where
  "unauthorizedError =
     \<lparr>code = Some ''ERR_BAD_REQUEST'', err_message = Some ''Request failed with status code 401'',
      response = Some \<lparr>status = 401, data = JObj [(''detail'', JStr ''Not authenticated'')]\<rparr>\<rparr>"

definition canceledError :: AxiosError where
  "canceledError = \<lparr>code = Some ''ERR_CANCELED'', err_message = Some ''canceled'', response = None\<rparr>"

definition postConfig :: "InternalAxiosRequestConfig" where
  "postConfig = \<lparr>req_method = Some ''post'', headers = [''Content-Type'' \<mapsto> ''application/json'']\<rparr>"

definition emptyListResponse :: jsval where
  "emptyListResponse =
     JObj [(''status'', JNum 200),
           (''data'', JObj [(''documents'', JArr []), (''total'', JNum 0), (''limit'', JNum 20),
                            (''offset'', JNum 0), (''has_more'', JBool False)])]"

definition noFilters :: DocumentFilters where
  "noFilters = \<lparr>limit = None, page = None\<rparr>"

definition secondPage :: DocumentFilters where
  "secondPage = \<lparr>limit = Some 20, page = Some 2\<rparr>"

text \<open>A response with 45 documents in all, two shown, and an \<open>items\<close> field of its own.\<close>

definition listResponse :: jsval where
  "listResponse =
     JObj [(''status'', JNum 200),
           (''data'', JObj [(''documents'', JArr [JObj [(''id'', JNum 1)], JObj [(''id'', JNum 2)]]),
                            (''items'', JArr [JObj [(''id'', JNum 9)]]),
                            (''total'', JNum 45), (''limit'', JNum 20), (''offset'', JNum 20),
                            (''has_more'', JBool True)])]"

text \<open>
  A response with 120 documents in all and its own limit of 50, one with 120 documents and
  no limit, and filters that ask for page 2 with a limit of 100.
\<close>

definition cappedListResponse :: jsval where
  "cappedListResponse =
     JObj [(''status'', JNum 200),
           (''data'', JObj [(''documents'', JArr [JObj [(''id'', JNum 1)]]),
                            (''total'', JNum 120), (''limit'', JNum 50), (''offset'', JNum 50),
                            (''has_more'', JBool True)])]"

definition unlimitedListResponse :: jsval where
  "unlimitedListResponse =
     JObj [(''status'', JNum 200),
           (''data'', JObj [(''documents'', JArr [JObj [(''id'', JNum 1)]]),
                            (''total'', JNum 120)])]"

definition wideFilters :: DocumentFilters where
  "wideFilters = \<lparr>limit = Some 100, page = Some 2\<rparr>"

text \<open>A response that arrives with the body \<open>null\<close>.\<close>

definition nullBodyResponse :: jsval where
  "nullBodyResponse = JObj [(''status'', JNum 200), (''data'', JNull)]"

text \<open>
  A browser in which every call returns, and one in which the click throws; blobs are
  lists of bytes.
\<close>

definition goodBrowser :: "nat list browser" where
  "goodBrowser = \<lparr>objectURL = (\<lambda>blob. ''blob:1''), throws = (\<lambda>c. False)\<rparr>"

definition clickFails :: "nat list browser" where
  "clickFails = \<lparr>objectURL = (\<lambda>blob. ''blob:1''), throws = (\<lambda>c. c = Click)\<rparr>"

text \<open>A sample of a coercion: every non-numeric page count comes out as 1.\<close>

definition oneCoercion :: "jsval \<Rightarrow> jsval \<Rightarrow> jsval" where
  "oneCoercion a b = JNum 1"

text \<open>
  Listener 0 registers listener 1 while it handles a notification; every other listener
  leaves the channel alone.
\<close>

definition lateSubscriber :: "listener \<Rightarrow> ToastMessage \<Rightarrow> bus_action list" where
  "lateSubscriber l toast = (if l = 0 then [Subscribe 1] else [])"

text \<open>A name with a space, a semicolon, and characters of two, three and four octets.\<close>

definition sampleName :: jsstring where
  "sampleName = js ''a b;c.pdf'' @ [233, 20013, 55357, 56832]"

section \<open>Properties of the response interceptor\<close>

lemma published_append: "published (xs @ ys) = published xs @ published ys"
  by (induction xs rule: published.induct) auto

lemma onRejected_401:
  assumes "is401 err"
  shows "onRejected err now w =
    (Inl err,
     w\<lparr>storage := (storage w)(''access_token'' := None, ''csrf_token'' := None, ''user'' := None),
       effects := effects w @ [PublishToast sessionExpiredToast, RemoveItem ''access_token'',
                    RemoveItem ''csrf_token'', RemoveItem ''user'']
                  @ (if startsWith (pathname w) ''/login'' then [] else [Navigate ''/login''])\<rparr>)"
  using assms
  by (simp add: onRejected_def publish_def removeItem_def set_href_def sessionExpiredToast_def
      Let_def)

lemma onRejected_generic:
  "generic err \<Longrightarrow> onRejected err now w = (Inl err, publishErrorToast err now w)"
  by (simp add: onRejected_def generic_def)

lemma publishErrorToast_suppressed:
  "suppressed (toastKey err) now w \<Longrightarrow> publishErrorToast err now w = w"
  by (simp add: publishErrorToast_def suppressed_def ERROR_TOAST_DEDUP_WINDOW_MS_def)

lemma publishErrorToast_delivered:
  "\<not> suppressed (toastKey err) now w \<Longrightarrow>
   publishErrorToast err now w =
     w\<lparr>lastToastKey := toastKey err, lastToastAt := now,
       effects := effects w @ [PublishToast (errorToast err)]\<rparr>"
  by (auto simp add: publishErrorToast_def suppressed_def ERROR_TOAST_DEDUP_WINDOW_MS_def
      publish_def errorToast_def Let_def)

lemma serverError_generic: "generic serverError"
  by (simp add: generic_def serverError_def is401_def)

lemma serverError_key: "toastKey serverError = ''500:boom''"
  by code_simp

text \<open>
  C1. A failure whose response status is 401: the interceptor publishes the fixed warning,
  removes \<open>access_token\<close>, \<open>csrf_token\<close> and \<open>user\<close> from storage, each exactly once,
  assigns the login path to the location exactly when the current path does not start with
  it, touches nothing else, and rejects with the failure it was given.
\<close>

theorem unauthorized_clears_session:
  assumes "response err = Some r" and "status r = 401"
  shows "\<exists>w'. onRejected err now w = (Inl err, w')
    \<and> effects w' = effects w @ [PublishToast sessionExpiredToast, RemoveItem ''access_token'',
                    RemoveItem ''csrf_token'', RemoveItem ''user'']
                  @ (if startsWith (pathname w) ''/login'' then [] else [Navigate ''/login''])
    \<and> (\<forall>k \<in> {''access_token'', ''csrf_token'', ''user''}.
          storage w' k = None
          \<and> count_list (drop (length (effects w)) (effects w')) (RemoveItem k) = 1)
    \<and> (\<forall>k. k \<notin> {''access_token'', ''csrf_token'', ''user''} \<longrightarrow> storage w' k = storage w k)
    \<and> (Navigate ''/login'' \<in> set (drop (length (effects w)) (effects w'))
          \<longleftrightarrow> \<not> startsWith (pathname w) ''/login'')
    \<and> pathname w' = pathname w \<and> lastToastKey w' = lastToastKey w
    \<and> lastToastAt w' = lastToastAt w"
proof -
  from assms have "is401 err" by (simp add: is401_def)
  from onRejected_401[OF this, of now w] show ?thesis
    by auto
qed

theorem unauthorized_clears_session_witness:
  "onRejected unauthorizedError 5000 page_world =
     (Inl unauthorizedError,
      page_world\<lparr>storage := [''theme'' \<mapsto> ''dark''],
        effects := [PublishToast sessionExpiredToast, RemoveItem ''access_token'',
                    RemoveItem ''csrf_token'', RemoveItem ''user'', Navigate ''/login'']\<rparr>)"
proof -
  have r: "response unauthorizedError =
      Some \<lparr>status = 401, data = JObj [(''detail'', JStr ''Not authenticated'')]\<rparr>"
    by (simp add: unauthorizedError_def)
  obtain w' where w': "onRejected unauthorizedError 5000 page_world = (Inl unauthorizedError, w')"
      and eff: "effects w' = effects page_world @ [PublishToast sessionExpiredToast,
                    RemoveItem ''access_token'', RemoveItem ''csrf_token'', RemoveItem ''user'']
                  @ (if startsWith (pathname page_world) ''/login'' then [] else [Navigate ''/login''])"
      and gone: "\<forall>k \<in> {''access_token'', ''csrf_token'', ''user''}. storage w' k = None
          \<and> count_list (drop (length (effects page_world)) (effects w')) (RemoveItem k) = 1"
      and kept: "\<forall>k. k \<notin> {''access_token'', ''csrf_token'', ''user''}
          \<longrightarrow> storage w' k = storage page_world k"
      and rest: "pathname w' = pathname page_world" "lastToastKey w' = lastToastKey page_world"
          "lastToastAt w' = lastToastAt page_world"
    using unauthorized_clears_session[OF r, of 5000 page_world] by auto
  have st: "storage w' = [''theme'' \<mapsto> ''dark'']"
  proof
    fix k show "storage w' k = [''theme'' \<mapsto> ''dark''] k"
      using gone kept by (cases "k \<in> {''access_token'', ''csrf_token'', ''user''}")
        (auto simp: page_world_def)
  qed
  have "w' = page_world\<lparr>storage := [''theme'' \<mapsto> ''dark''],
        effects := [PublishToast sessionExpiredToast, RemoveItem ''access_token'',
                    RemoveItem ''csrf_token'', RemoveItem ''user'', Navigate ''/login'']\<rparr>"
    using st eff rest by (simp add: page_world_def startsWith_def)
  with w' show ?thesis by simp
qed

lemma burst_suppressed:
  assumes "\<forall>(err, now) \<in> set fires. generic err \<and> toastKey err = lastToastKey w
             \<and> now - lastToastAt w < 3000"
  shows "onRejected_all fires w = w"
  using assms
proof (induction fires)
  case Nil
  then show ?case by simp
next
  case (Cons f fires)
  obtain err now where f: "f = (err, now)" by (cases f)
  with Cons.prems have "generic err" and "suppressed (toastKey err) now w"
    by (auto simp: suppressed_def)
  then have "snd (onRejected err now w) = w"
    by (simp add: onRejected_generic publishErrorToast_suppressed)
  with Cons f show ?case by simp
qed

lemma spaced_all_delivered:
  assumes "\<forall>(err, now) \<in> set fires. generic err \<and> toastKey err = k"
      and "generic e0" and "toastKey e0 = k"
      and "\<not> suppressed k t0 w" and "spaced t0 fires"
  shows "length (published (effects (onRejected_all ((e0, t0) # fires) w)))
           = length (published (effects w)) + Suc (length fires)"
  using assms
proof (induction fires arbitrary: e0 t0 w)
  case Nil
  then show ?case
    by (simp add: onRejected_generic publishErrorToast_delivered published_append)
next
  case (Cons f fires)
  obtain e1 t1 where f: "f = (e1, t1)" by (cases f)
  let ?w1 = "snd (onRejected e0 t0 w)"
  have w1: "?w1 = w\<lparr>lastToastKey := k, lastToastAt := t0,
       effects := effects w @ [PublishToast (errorToast e0)]\<rparr>"
    using Cons.prems by (simp add: onRejected_generic publishErrorToast_delivered)
  have ns: "\<not> suppressed k t1 ?w1"
    using Cons.prems(5) by (simp add: w1 f suppressed_def)
  have e1: "generic e1" "toastKey e1 = k" "spaced t1 fires"
    using Cons.prems f by auto
  have rest: "\<forall>(err, now) \<in> set fires. generic err \<and> toastKey err = k"
    using Cons.prems(1) by simp
  have "length (published (effects (onRejected_all ((e1, t1) # fires) ?w1)))
           = length (published (effects ?w1)) + Suc (length fires)"
    using rest e1(1,2) ns e1(3) by (rule Cons.IH)
  then show ?case
    by (simp add: f w1 published_append)
qed

text \<open>
  C2, as the code has it. The window is measured from the last delivered notification, not
  from the last attempt. A run of generic failures with one key whose first is delivered:
  if every later one falls less than 3000 ms after that first one, exactly one
  notification is published; if every failure comes at least 3000 ms after the one before
  it, every one is published. The state \<open>(lastToastKey, lastToastAt)\<close> changes only in a
  call that publishes, and then to the key and clock of that call.
\<close>

theorem dedup_window_from_last_delivery:
  assumes "generic e0" and "toastKey e0 = k"
      and "\<forall>(err, now) \<in> set rest. generic err \<and> toastKey err = k"
      and "\<not> suppressed k t0 w"
  shows "((\<forall>(err, now) \<in> set rest. now - t0 < 3000) \<longrightarrow>
            published (effects (onRejected_all ((e0, t0) # rest) w))
              = published (effects w) @ [errorToast e0])
       \<and> (spaced t0 rest \<longrightarrow>
            length (published (effects (onRejected_all ((e0, t0) # rest) w)))
              = length (published (effects w)) + Suc (length rest))
       \<and> (\<forall>err now v. generic err \<longrightarrow>
            snd (onRejected err now v) =
              (if suppressed (toastKey err) now v then v
               else v\<lparr>lastToastKey := toastKey err, lastToastAt := now,
                      effects := effects v @ [PublishToast (errorToast err)]\<rparr>))"
proof (intro conjI impI allI)
  let ?w1 = "snd (onRejected e0 t0 w)"
  have w1: "?w1 = w\<lparr>lastToastKey := k, lastToastAt := t0,
       effects := effects w @ [PublishToast (errorToast e0)]\<rparr>"
    using assms by (simp add: onRejected_generic publishErrorToast_delivered)
  assume win: "\<forall>(err, now) \<in> set rest. now - t0 < 3000"
  have "\<forall>(err, now) \<in> set rest. generic err \<and> toastKey err = lastToastKey ?w1
             \<and> now - lastToastAt ?w1 < 3000"
    using assms(3) win by (auto simp: w1)
  then have "onRejected_all rest ?w1 = ?w1" by (rule burst_suppressed)
  then show "published (effects (onRejected_all ((e0, t0) # rest) w))
              = published (effects w) @ [errorToast e0]"
    by (simp add: w1 published_append)
next
  assume "spaced t0 rest"
  with assms show "length (published (effects (onRejected_all ((e0, t0) # rest) w)))
              = length (published (effects w)) + Suc (length rest)"
    by (intro spaced_all_delivered) auto
next
  fix err now v
  assume "generic err"
  then show "snd (onRejected err now v) =
              (if suppressed (toastKey err) now v then v
               else v\<lparr>lastToastKey := toastKey err, lastToastAt := now,
                      effects := effects v @ [PublishToast (errorToast err)]\<rparr>)"
    by (simp add: onRejected_generic publishErrorToast_suppressed publishErrorToast_delivered)
qed

theorem dedup_window_from_last_delivery_witness:
  "published (effects (onRejected_all
      [(serverError, 10000), (serverError, 11000), (serverError, 12999)] page_world))
     = [errorToast serverError]
   \<and> length (published (effects (onRejected_all
      [(serverError, 10000), (serverError, 13000), (serverError, 16001)] page_world))) = 3"
proof -
  have ns: "\<not> suppressed ''500:boom'' 10000 page_world"
    by (simp add: suppressed_def page_world_def)
  have a: "\<forall>(err, now) \<in> set [(serverError, 11000), (serverError, 12999)].
             generic err \<and> toastKey err = ''500:boom''"
    by (simp add: serverError_generic serverError_key)
  have b: "\<forall>(err, now) \<in> set [(serverError, 13000), (serverError, 16001)].
             generic err \<and> toastKey err = ''500:boom''"
    by (simp add: serverError_generic serverError_key)
  have "published (effects (onRejected_all
      ((serverError, 10000) # [(serverError, 11000), (serverError, 12999)]) page_world))
     = published (effects page_world) @ [errorToast serverError]"
    using dedup_window_from_last_delivery[OF serverError_generic serverError_key a ns] by simp
  moreover have "length (published (effects (onRejected_all
      ((serverError, 10000) # [(serverError, 13000), (serverError, 16001)]) page_world)))
     = length (published (effects page_world)) + Suc (length [(serverError, 13000), (serverError, 16001)])"
    using dedup_window_from_last_delivery[OF serverError_generic serverError_key b ns] by simp
  ultimately show ?thesis by (simp add: page_world_def)
qed

text \<open>
  The claim as worded fails: three failures with one key at 10000, 12000 and 14000 ms are
  each less than 3000 ms after the one before, yet two notifications are published (the
  third is 4000 ms after the last delivered one).
\<close>

theorem dedup_consecutive_counterexample:
  "generic serverError
   \<and> consecutive_within 10000 [(serverError, 12000), (serverError, 14000)]
   \<and> published (effects (onRejected_all
        [(serverError, 10000), (serverError, 12000), (serverError, 14000)] page_world))
       = [errorToast serverError, errorToast serverError]"
  by (simp add: onRejected_generic serverError_generic publishErrorToast_def serverError_key
      page_world_def publish_def ERROR_TOAST_DEDUP_WINDOW_MS_def errorToast_def)

text \<open>
  C3. A cancelled request reaches the interceptor as a failure with the code
  \<open>ERR_CANCELED\<close> and no server response. The interceptor then publishes nothing and
  changes nothing (no notification, no storage or state change), and rejects with the
  failure as it came. The same holds with any response attached whose status is not 401,
  the status the interceptor tests first.
\<close>

theorem canceled_is_silent:
  assumes "code err = Some ''ERR_CANCELED''"
      and "response err = None \<or> (\<exists>r. response err = Some r \<and> status r \<noteq> 401)"
  shows "onRejected err now w = (Inl err, w)
       \<and> published (effects (snd (onRejected err now w))) = published (effects w)"
proof -
  from assms(2) have "\<not> is401 err"
    by (auto simp: is401_def)
  with assms(1) have "onRejected err now w = (Inl err, w)"
    by (simp add: onRejected_def)
  then show ?thesis by simp
qed

theorem canceled_is_silent_witness:
  "onRejected canceledError 7 page_world = (Inl canceledError, page_world)"
proof -
  have c: "code canceledError = Some ''ERR_CANCELED''"
    by (simp add: canceledError_def)
  have r: "response canceledError = None
      \<or> (\<exists>r. response canceledError = Some r \<and> status r \<noteq> 401)"
    by (simp add: canceledError_def)
  from canceled_is_silent[OF c r, of 7 page_world] show ?thesis by simp
qed

section \<open>Properties of the request interceptor\<close>

lemma headers_onRequest:
  "headers (onRequest st c) =
     (let h1 = (case getItem_truthy st ''access_token'' of
                  Some token \<Rightarrow> (headers c)(''Authorization'' \<mapsto> ''Bearer '' @ token)
                | None \<Rightarrow> headers c)
      in if requestMethod c \<in> MUTATING_METHODS then
           (case getItem_truthy st ''csrf_token'' of
              Some csrfToken \<Rightarrow> h1(''x-csrf-token'' \<mapsto> csrfToken)
            | None \<Rightarrow> h1)
         else h1)"
  by (simp add: onRequest_def requestMethod_def Let_def split: option.splits)

lemma rest_onRequest: "req_method (onRequest st c) = req_method c" "InternalAxiosRequestConfig.more (onRequest st c) = InternalAxiosRequestConfig.more c"
  by (simp_all add: onRequest_def Let_def split: option.splits)

text \<open>
  C7. The outgoing request carries \<open>x-csrf-token\<close> set to the stored CSRF token exactly
  when the method (upper-cased, \<open>GET\<close> when none is given) is POST, PUT, PATCH or DELETE
  and a non-empty token is stored; it carries \<open>Authorization: Bearer token\<close> exactly when a
  non-empty access token is stored. Where the interceptor does not attach a header, the
  header is as the caller left it; every other header, the method and the rest of the
  request are unchanged.
\<close>

theorem outbound_headers:
  "headers (onRequest st c) ''x-csrf-token'' =
     (if requestMethod c \<in> MUTATING_METHODS \<and> st ''csrf_token'' \<noteq> None \<and> st ''csrf_token'' \<noteq> Some []
      then st ''csrf_token'' else headers c ''x-csrf-token'')
   \<and> headers (onRequest st c) ''Authorization'' =
     (if st ''access_token'' \<noteq> None \<and> st ''access_token'' \<noteq> Some []
      then Some (''Bearer '' @ the (st ''access_token'')) else headers c ''Authorization'')
   \<and> (\<forall>k. k \<noteq> ''x-csrf-token'' \<and> k \<noteq> ''Authorization'' \<longrightarrow> headers (onRequest st c) k = headers c k)
   \<and> req_method (onRequest st c) = req_method c
   \<and> InternalAxiosRequestConfig.more (onRequest st c) = InternalAxiosRequestConfig.more c
   \<and> (requestMethod c \<in> MUTATING_METHODS \<longleftrightarrow>
        (\<exists>m. (req_method c = Some m \<and> m \<noteq> [] \<or> (req_method c = None \<or> req_method c = Some []) \<and> m = ''GET'')
             \<and> map upper_char m \<in> {''POST'', ''PUT'', ''PATCH'', ''DELETE''}))"
proof (intro conjI)
  show "headers (onRequest st c) ''x-csrf-token'' =
     (if requestMethod c \<in> MUTATING_METHODS \<and> st ''csrf_token'' \<noteq> None \<and> st ''csrf_token'' \<noteq> Some []
      then st ''csrf_token'' else headers c ''x-csrf-token'')"
    by (auto simp: headers_onRequest getItem_truthy_def Let_def split: option.splits)
  show "headers (onRequest st c) ''Authorization'' =
     (if st ''access_token'' \<noteq> None \<and> st ''access_token'' \<noteq> Some []
      then Some (''Bearer '' @ the (st ''access_token'')) else headers c ''Authorization'')"
    by (auto simp: headers_onRequest getItem_truthy_def Let_def split: option.splits)
  show "\<forall>k. k \<noteq> ''x-csrf-token'' \<and> k \<noteq> ''Authorization'' \<longrightarrow> headers (onRequest st c) k = headers c k"
    by (auto simp: headers_onRequest getItem_truthy_def Let_def split: option.splits)
  show "req_method (onRequest st c) = req_method c" "InternalAxiosRequestConfig.more (onRequest st c) = InternalAxiosRequestConfig.more c"
    by (rule rest_onRequest)+
  show "requestMethod c \<in> MUTATING_METHODS \<longleftrightarrow>
        (\<exists>m. (req_method c = Some m \<and> m \<noteq> [] \<or> (req_method c = None \<or> req_method c = Some []) \<and> m = ''GET'')
             \<and> map upper_char m \<in> {''POST'', ''PUT'', ''PATCH'', ''DELETE''})"
    by (cases "req_method c") (auto simp: requestMethod_def toUpperCase_def MUTATING_METHODS_def)
qed

theorem outbound_headers_witness:
  "headers (onRequest (storage page_world) postConfig) ''x-csrf-token'' = Some ''xyz''
   \<and> headers (onRequest (storage page_world) postConfig) ''Authorization'' = Some ''Bearer abc''
   \<and> headers (onRequest (storage page_world) postConfig) ''Content-Type'' = Some ''application/json''"
proof -
  have "requestMethod postConfig = ''POST''"
    by code_simp
  then have m: "requestMethod postConfig \<in> MUTATING_METHODS"
    by (simp add: MUTATING_METHODS_def)
  show ?thesis
    using outbound_headers[of "storage page_world" postConfig] m
    by (simp add: page_world_def postConfig_def)
qed

section \<open>Properties of the list operation\<close>

lemma getDocuments_failed:
  "getDocuments_try coerced filters oc = Inl e \<Longrightarrow> getDocuments coerced filters oc = Inr EMPTY_RESPONSE"
  by (simp add: getDocuments_def)

lemma getDocuments_resolved:
  assumes "resp \<noteq> JUndefined" and "resp \<noteq> JNull"
  shows "getDocuments coerced filters (Resolved resp) =
    (let dat = js_or (get_prop resp ''data'') (JObj [])
     in Inr (assign (assign (assign [] EMPTY_RESPONSE) (spread_props dat))
                   [(''documents'', docs_of dat), (''items'', docs_of dat), (''total'', total_of dat),
                    (''pages'', pages_of coerced (total_of dat) (limit_of filters dat)),
                    (''page'', number_or (page filters) 1),
                    (''page_size'', limit_of filters dat)]))"
  using assms by (simp add: getDocuments_def getDocuments_try_def Let_def)

lemma resolved_fields:
  assumes "resp \<noteq> JUndefined" and "resp \<noteq> JNull"
  defines "dat \<equiv> js_or (get_prop resp ''data'') (JObj [])"
  shows "\<exists>result. getDocuments coerced filters (Resolved resp) = Inr result
     \<and> map_of result ''documents'' = Some (docs_of dat)
     \<and> map_of result ''items'' = Some (docs_of dat)
     \<and> map_of result ''total'' = Some (total_of dat)
     \<and> map_of result ''pages'' = Some (pages_of coerced (total_of dat) (limit_of filters dat))
     \<and> map_of result ''page'' = Some (number_or (page filters) 1)
     \<and> map_of result ''page_size'' = Some (limit_of filters dat)"
  unfolding dat_def getDocuments_resolved[OF assms(1,2)] Let_def
  by (simp add: update_conv')

lemma limit_of_nonzero: "limit_of filters dat = JNum l \<Longrightarrow> l \<noteq> 0"
  by (auto simp: limit_of_def js_or_def number_or_def split: if_splits option.splits)

lemma ceiling_zero_iff:
  assumes "0 \<le> t" and "0 < l"
  shows "\<lceil>rat_of_int t / rat_of_int l\<rceil> = 0 \<longleftrightarrow> t = 0"
proof
  assume "\<lceil>rat_of_int t / rat_of_int l\<rceil> = 0"
  then have "rat_of_int t / rat_of_int l \<le> 0"
    by (simp add: ceiling_eq_iff)
  with assms show "t = 0"
    by (simp add: divide_le_0_iff)
next
  assume "t = 0" then show "\<lceil>rat_of_int t / rat_of_int l\<rceil> = 0" by simp
qed

lemma pages_of_zero: "l \<noteq> 0 \<Longrightarrow> pages_of coerced (JNum 0) (JNum l) = JNum 1"
  by (simp add: pages_of_def)

lemma pages_of_count:
  assumes "0 \<le> t" and "t \<le> 9007199254740991" and "0 < l" and "l \<le> 9007199254740991"
  shows "pages_of coerced (JNum t) (JNum l)
           = JNum (if t = 0 then 1 else \<lceil>rat_of_int t / rat_of_int l\<rceil>)"
proof -
  have "safe_integer t" "safe_integer l" "l \<noteq> 0"
    using assms by (simp_all add: safe_integer_def)
  moreover have "\<lceil>rat_of_int t / rat_of_int l\<rceil> = 0 \<longleftrightarrow> t = 0"
    using assms(1,3) by (rule ceiling_zero_iff)
  ultimately show ?thesis
    by (simp add: pages_of_def Let_def)
qed

lemma number_or_cases: "\<exists>i. number_or n d = JNum i \<and> (d \<noteq> 0 \<longrightarrow> i \<noteq> 0)"
  by (auto simp: number_or_def split: option.splits)

text \<open>
  C5, as the code has it. Whatever the request does, the promise \<open>getDocuments\<close> returns
  is fulfilled, never rejected. Whenever the \<open>try\<close> block throws (the request is
  rejected, or the awaited value cannot be read), the value is \<open>EMPTY_RESPONSE\<close>: empty
  \<open>documents\<close> and \<open>items\<close>, total 0, pages 1, page 1. A response that arrives with
  a malformed body does not throw and is not answered with \<open>EMPTY_RESPONSE\<close>: it is
  normalised. When the body has no \<open>documents\<close>, \<open>total\<close> and \<open>limit\<close> (it is not an
  object, or an empty one), \<open>documents\<close> and \<open>items\<close> are empty, total is 0 and pages 1,
  but \<open>page\<close> is \<open>filters.page || 1\<close>.
\<close>

theorem getDocuments_absorbs_failures:
  "(\<exists>result. getDocuments coerced filters oc = Inr result)
   \<and> getDocuments coerced filters (Rejected err) = Inr EMPTY_RESPONSE
   \<and> getDocuments coerced filters (Resolved JUndefined) = Inr EMPTY_RESPONSE
   \<and> (\<forall>e. getDocuments_try coerced filters oc = Inl e \<longrightarrow>
         getDocuments coerced filters oc = Inr EMPTY_RESPONSE)
   \<and> map_of EMPTY_RESPONSE ''documents'' = Some (JArr [])
   \<and> map_of EMPTY_RESPONSE ''items'' = Some (JArr [])
   \<and> map_of EMPTY_RESPONSE ''total'' = Some (JNum 0)
   \<and> map_of EMPTY_RESPONSE ''pages'' = Some (JNum 1)
   \<and> map_of EMPTY_RESPONSE ''page'' = Some (JNum 1)
   \<and> (resp \<noteq> JUndefined \<and> resp \<noteq> JNull
        \<and> get_prop (js_or (get_prop resp ''data'') (JObj [])) ''documents'' = JUndefined
        \<and> get_prop (js_or (get_prop resp ''data'') (JObj [])) ''total'' = JUndefined
        \<and> get_prop (js_or (get_prop resp ''data'') (JObj [])) ''limit'' = JUndefined
      \<longrightarrow> (\<exists>result. getDocuments coerced filters (Resolved resp) = Inr result
             \<and> map_of result ''documents'' = Some (JArr [])
             \<and> map_of result ''items'' = Some (JArr [])
             \<and> map_of result ''total'' = Some (JNum 0)
             \<and> map_of result ''pages'' = Some (JNum 1)
             \<and> map_of result ''page'' = Some (number_or (page filters) 1)))"
proof (intro conjI allI impI)
  show "\<exists>result. getDocuments coerced filters oc = Inr result"
    by (cases "getDocuments_try coerced filters oc") (simp_all add: getDocuments_def)
  show "getDocuments coerced filters (Rejected err) = Inr EMPTY_RESPONSE"
    by (simp add: getDocuments_def getDocuments_try_def)
  show "getDocuments coerced filters (Resolved JUndefined) = Inr EMPTY_RESPONSE"
    by (simp add: getDocuments_def getDocuments_try_def)
  show "getDocuments coerced filters oc = Inr EMPTY_RESPONSE"
    if "getDocuments_try coerced filters oc = Inl e" for e
    using that by (rule getDocuments_failed)
  show "\<exists>result. getDocuments coerced filters (Resolved resp) = Inr result
             \<and> map_of result ''documents'' = Some (JArr [])
             \<and> map_of result ''items'' = Some (JArr [])
             \<and> map_of result ''total'' = Some (JNum 0)
             \<and> map_of result ''pages'' = Some (JNum 1)
             \<and> map_of result ''page'' = Some (number_or (page filters) 1)"
    if h: "resp \<noteq> JUndefined \<and> resp \<noteq> JNull
        \<and> get_prop (js_or (get_prop resp ''data'') (JObj [])) ''documents'' = JUndefined
        \<and> get_prop (js_or (get_prop resp ''data'') (JObj [])) ''total'' = JUndefined
        \<and> get_prop (js_or (get_prop resp ''data'') (JObj [])) ''limit'' = JUndefined"
  proof -
    let ?d = "js_or (get_prop resp ''data'') (JObj [])"
    have d: "docs_of ?d = JArr []" "total_of ?d = JNum 0"
      "limit_of filters ?d = number_or (limit filters) 20"
      using h by (simp_all add: docs_of_def total_of_def limit_of_def js_or_def)
    obtain l where l: "number_or (limit filters) 20 = JNum l" "l \<noteq> 0"
      using number_or_cases[of "limit filters" 20] by auto
    have "pages_of coerced (total_of ?d) (limit_of filters ?d) = JNum 1"
      unfolding d l(1) using l(2) by (rule pages_of_zero)
    with resolved_fields[of resp coerced filters] h d show ?thesis
      by auto
  qed
qed (simp_all add: EMPTY_RESPONSE_def)

theorem getDocuments_absorbs_failures_witness:
  "getDocuments oneCoercion noFilters (Rejected serverError) = Inr EMPTY_RESPONSE
   \<and> getDocuments oneCoercion secondPage (Resolved JNull) = Inr EMPTY_RESPONSE
   \<and> (\<exists>result. getDocuments oneCoercion secondPage (Resolved nullBodyResponse) = Inr result
         \<and> map_of result ''total'' = Some (JNum 0)
         \<and> map_of result ''page'' = Some (JNum 2))"
proof -
  have t: "getDocuments_try oneCoercion secondPage (Resolved JNull) = Inl TypeError"
    by (simp add: getDocuments_try_def)
  have n: "nullBodyResponse \<noteq> JUndefined \<and> nullBodyResponse \<noteq> JNull
        \<and> get_prop (js_or (get_prop nullBodyResponse ''data'') (JObj [])) ''documents'' = JUndefined
        \<and> get_prop (js_or (get_prop nullBodyResponse ''data'') (JObj [])) ''total'' = JUndefined
        \<and> get_prop (js_or (get_prop nullBodyResponse ''data'') (JObj [])) ''limit'' = JUndefined"
    by (simp add: nullBodyResponse_def get_prop_def js_or_def)
  have p: "number_or (page secondPage) 1 = JNum 2"
    by (simp add: secondPage_def number_or_def)
  show ?thesis
    using getDocuments_absorbs_failures[of oneCoercion noFilters "Rejected serverError" serverError
        nullBodyResponse]
      getDocuments_absorbs_failures[of oneCoercion secondPage "Resolved JNull" serverError
        nullBodyResponse]
      t n p
    by auto
qed

text \<open>
  The claim as worded fails for a malformed response: a response whose body is \<open>null\<close>,
  asked for with \<open>page: 2\<close>, is answered with page 2, not with the empty result's page 1.
\<close>

theorem malformed_body_counterexample:
  "getDocuments oneCoercion secondPage (Resolved nullBodyResponse) =
     Inr [(''documents'', JArr []), (''total'', JNum 0), (''limit'', JNum 20),
          (''offset'', JNum 0), (''has_more'', JBool False), (''items'', JArr []),
          (''pages'', JNum 1), (''page'', JNum 2), (''page_size'', JNum 20)]
   \<and> map_of EMPTY_RESPONSE ''page'' = Some (JNum 1)"
  by (simp add: getDocuments_def getDocuments_try_def nullBodyResponse_def secondPage_def
      Let_def get_prop_def js_or_def docs_of_def total_of_def limit_of_def number_or_def
      pages_of_def spread_props_def EMPTY_RESPONSE_def)

text \<open>
  C6. A response arrives whose \<open>total\<close> is a count \<open>t\<close> (taken as 0 when the body has
  none) and whose page size \<open>l\<close> is positive, both safe integers; \<open>l\<close> is the body's
  \<open>limit\<close>, or without one the filter's \<open>limit\<close>, or without that 20. Then the result
  has this \<open>total\<close>, \<open>l\<close> as \<open>page_size\<close>, and as \<open>pages\<close> the ceiling of
  \<open>t / l\<close>, or 1 when \<open>t\<close> is 0. The empty response of the scenario, asked for without
  filters, yields the empty page.
\<close>

theorem pages_is_ceiling:
  assumes "resp \<noteq> JUndefined" and "resp \<noteq> JNull"
      and "dat = js_or (get_prop resp ''data'') (JObj [])"
      and "get_prop dat ''total'' = JNum t \<or> (\<not> truthy (get_prop dat ''total'') \<and> t = 0)"
      and "0 \<le> t" and "t \<le> 9007199254740991"
      and "get_prop dat ''limit'' = JNum l
           \<or> (\<not> truthy (get_prop dat ''limit'') \<and> limit filters = Some l)
           \<or> (\<not> truthy (get_prop dat ''limit'')
               \<and> (limit filters = None \<or> limit filters = Some 0) \<and> l = 20)"
      and "0 < l" and "l \<le> 9007199254740991"
  shows "(\<exists>result. getDocuments coerced filters (Resolved resp) = Inr result
          \<and> map_of result ''total'' = Some (JNum t)
          \<and> map_of result ''page_size'' = Some (JNum l)
          \<and> map_of result ''pages'' =
               Some (JNum (if t = 0 then 1 else \<lceil>rat_of_int t / rat_of_int l\<rceil>)))
       \<and> getDocuments coerced noFilters (Resolved emptyListResponse) =
           Inr [(''documents'', JArr []), (''total'', JNum 0), (''limit'', JNum 20),
                (''offset'', JNum 0), (''has_more'', JBool False), (''items'', JArr []),
                (''pages'', JNum 1), (''page'', JNum 1), (''page_size'', JNum 20)]"
proof (intro conjI)
  have tot: "total_of dat = JNum t"
    using assms(4) by (auto simp: total_of_def js_or_def)
  have lmt: "limit_of filters dat = JNum l"
    using assms(7,8) by (auto simp: limit_of_def js_or_def number_or_def)
  have pg: "pages_of coerced (JNum t) (JNum l)
      = JNum (if t = 0 then 1 else \<lceil>rat_of_int t / rat_of_int l\<rceil>)"
    using assms(5,6,8,9) by (rule pages_of_count)
  from resolved_fields[OF assms(1,2), of coerced filters]
  obtain result where "getDocuments coerced filters (Resolved resp) = Inr result"
    and "map_of result ''total'' = Some (total_of dat)"
    and "map_of result ''page_size'' = Some (limit_of filters dat)"
    and "map_of result ''pages'' = Some (pages_of coerced (total_of dat) (limit_of filters dat))"
    unfolding assms(3) by auto
  then show "\<exists>result. getDocuments coerced filters (Resolved resp) = Inr result
          \<and> map_of result ''total'' = Some (JNum t)
          \<and> map_of result ''page_size'' = Some (JNum l)
          \<and> map_of result ''pages'' =
               Some (JNum (if t = 0 then 1 else \<lceil>rat_of_int t / rat_of_int l\<rceil>))"
    unfolding tot lmt pg by blast
  show "getDocuments coerced noFilters (Resolved emptyListResponse) =
           Inr [(''documents'', JArr []), (''total'', JNum 0), (''limit'', JNum 20),
                (''offset'', JNum 0), (''has_more'', JBool False), (''items'', JArr []),
                (''pages'', JNum 1), (''page'', JNum 1), (''page_size'', JNum 20)]"
    by (simp add: getDocuments_def getDocuments_try_def emptyListResponse_def noFilters_def
        Let_def get_prop_def js_or_def docs_of_def total_of_def limit_of_def number_or_def
        pages_of_def spread_props_def EMPTY_RESPONSE_def)
qed

theorem pages_is_ceiling_witness:
  "(\<exists>result. getDocuments oneCoercion wideFilters (Resolved cappedListResponse) = Inr result
     \<and> map_of result ''total'' = Some (JNum 120)
     \<and> map_of result ''page_size'' = Some (JNum 50)
     \<and> map_of result ''pages'' = Some (JNum 3))
   \<and> (\<exists>result. getDocuments oneCoercion wideFilters (Resolved unlimitedListResponse) = Inr result
     \<and> map_of result ''total'' = Some (JNum 120)
     \<and> map_of result ''page_size'' = Some (JNum 100)
     \<and> map_of result ''pages'' = Some (JNum 2))"
proof -
  define capped where "capped = js_or (get_prop cappedListResponse ''data'') (JObj [])"
  define unlimited where "unlimited = js_or (get_prop unlimitedListResponse ''data'') (JObj [])"
  have c: "get_prop capped ''total'' = JNum 120" "get_prop capped ''limit'' = JNum 50"
    by (simp_all add: capped_def cappedListResponse_def get_prop_def js_or_def)
  have u: "get_prop unlimited ''total'' = JNum 120"
    "\<not> truthy (get_prop unlimited ''limit'') \<and> limit wideFilters = Some 100"
    by (simp_all add: unlimited_def unlimitedListResponse_def get_prop_def js_or_def
        wideFilters_def)
  have r: "cappedListResponse \<noteq> JUndefined" "cappedListResponse \<noteq> JNull"
    "unlimitedListResponse \<noteq> JUndefined" "unlimitedListResponse \<noteq> JNull"
    by (simp_all add: cappedListResponse_def unlimitedListResponse_def)
  have three: "\<lceil>rat_of_int 120 / rat_of_int 50\<rceil> = 3"
    by (simp add: ceiling_eq_iff)
  have two: "\<lceil>rat_of_int 120 / rat_of_int 100\<rceil> = 2"
    by (simp add: ceiling_eq_iff)
  have "\<exists>result. getDocuments oneCoercion wideFilters (Resolved cappedListResponse) = Inr result
     \<and> map_of result ''total'' = Some (JNum 120)
     \<and> map_of result ''page_size'' = Some (JNum 50)
     \<and> map_of result ''pages'' = Some (JNum 3)"
    using pages_is_ceiling[where resp = cappedListResponse and dat = capped and t = 120
        and l = 50 and filters = wideFilters and coerced = oneCoercion]
      r c three
    by (simp add: capped_def)
  moreover
  have "\<exists>result. getDocuments oneCoercion wideFilters (Resolved unlimitedListResponse) = Inr result
     \<and> map_of result ''total'' = Some (JNum 120)
     \<and> map_of result ''page_size'' = Some (JNum 100)
     \<and> map_of result ''pages'' = Some (JNum 2)"
    using pages_is_ceiling[where resp = unlimitedListResponse and dat = unlimited and t = 120
        and l = 100 and filters = wideFilters and coerced = oneCoercion]
      r u two
    by (simp add: unlimited_def)
  ultimately show ?thesis by blast
qed

text \<open>
  C10. The value \<open>getDocuments\<close> is fulfilled with always has the same value under
  \<open>items\<close> and under \<open>documents\<close>: the empty array after a failure, and after a
  response its \<open>documents\<close> (the empty array when it has none). An \<open>items\<close> field in
  the response itself is overwritten.
\<close>

theorem items_equal_documents:
  "\<exists>result docs. getDocuments coerced filters oc = Inr result
     \<and> map_of result ''items'' = Some docs
     \<and> map_of result ''documents'' = Some docs
     \<and> docs = (case oc of
                 Rejected err \<Rightarrow> JArr []
               | Resolved resp \<Rightarrow>
                   if resp = JUndefined \<or> resp = JNull then JArr []
                   else docs_of (js_or (get_prop resp ''data'') (JObj [])))"
proof (cases oc)
  case (Rejected err)
  then show ?thesis
    by (simp add: getDocuments_def getDocuments_try_def EMPTY_RESPONSE_def)
next
  case (Resolved resp)
  show ?thesis
  proof (cases "resp = JUndefined \<or> resp = JNull")
    case True
    with Resolved show ?thesis
      by (auto simp: getDocuments_def getDocuments_try_def EMPTY_RESPONSE_def)
  next
    case False
    then have "resp \<noteq> JUndefined" "resp \<noteq> JNull" by simp_all
    from resolved_fields[OF this, of coerced filters] Resolved False show ?thesis
      by auto
  qed
qed

theorem items_equal_documents_witness:
  "\<exists>result. getDocuments oneCoercion secondPage (Resolved listResponse) = Inr result
     \<and> map_of result ''items'' = Some (JArr [JObj [(''id'', JNum 1)], JObj [(''id'', JNum 2)]])
     \<and> map_of result ''documents'' = Some (JArr [JObj [(''id'', JNum 1)], JObj [(''id'', JNum 2)]])"
proof -
  have "docs_of (js_or (get_prop listResponse ''data'') (JObj [])) =
      JArr [JObj [(''id'', JNum 1)], JObj [(''id'', JNum 2)]]"
    by (simp add: listResponse_def get_prop_def js_or_def docs_of_def)
  moreover have "listResponse \<noteq> JUndefined" "listResponse \<noteq> JNull"
    by (simp_all add: listResponse_def)
  ultimately show ?thesis
    using items_equal_documents[of oneCoercion secondPage "Resolved listResponse"]
    by auto
qed

section \<open>Properties of the download trigger\<close>

text \<open>
  C9, as the code has it. There is no \<open>try\<close>/\<open>finally\<close>: when every browser call
  returns, the object URL is created, the link appended, clicked and removed, and the URL
  revoked, in this order, each once. When some call throws, the exception reaches the
  caller and the URL is not revoked.
\<close>

theorem release_on_normal_path:
  "((\<forall>c. \<not> throws b c) \<longrightarrow>
      triggerBrowserDownload b blob filename =
        (Inr (),
         [CreatedObjectURL (objectURL b blob), AppendedLink (objectURL b blob) filename,
          Clicked (objectURL b blob) filename, RemovedLink, RevokedObjectURL (objectURL b blob)]))
   \<and> ((\<exists>c. throws b c) \<longrightarrow>
      (\<exists>c. throws b c \<and> fst (triggerBrowserDownload b blob filename) = Inl c)
      \<and> RevokedObjectURL (objectURL b blob) \<notin> set (snd (triggerBrowserDownload b blob filename)))"
proof (intro conjI impI)
  assume "\<forall>c. \<not> throws b c"
  then show "triggerBrowserDownload b blob filename =
        (Inr (),
         [CreatedObjectURL (objectURL b blob), AppendedLink (objectURL b blob) filename,
          Clicked (objectURL b blob) filename, RemovedLink, RevokedObjectURL (objectURL b blob)])"
    by (simp add: triggerBrowserDownload_def Let_def)
next
  assume "\<exists>c. throws b c"
  then obtain c where c: "throws b c" ..
  have some: "throws b CreateObjectURL \<or> throws b CreateElement \<or> throws b AppendChild
      \<or> throws b Click \<or> throws b RemoveChild \<or> throws b RevokeObjectURL"
    using c by (cases c) simp_all
  then show "\<exists>c. throws b c \<and> fst (triggerBrowserDownload b blob filename) = Inl c"
    by (auto simp: triggerBrowserDownload_def Let_def)
  from some show "RevokedObjectURL (objectURL b blob) \<notin> set (snd (triggerBrowserDownload b blob filename))"
    by (auto simp: triggerBrowserDownload_def Let_def)
qed

theorem release_on_normal_path_witness:
  "triggerBrowserDownload goodBrowser [37, 80, 68, 70] ''policy.pdf'' =
     (Inr (),
      [CreatedObjectURL ''blob:1'', AppendedLink ''blob:1'' ''policy.pdf'',
       Clicked ''blob:1'' ''policy.pdf'', RemovedLink, RevokedObjectURL ''blob:1''])
   \<and> RevokedObjectURL ''blob:1'' \<notin> set (snd (triggerBrowserDownload clickFails [37, 80, 68, 70] ''policy.pdf''))"
proof -
  have g: "\<forall>c. \<not> throws goodBrowser c" by (simp add: goodBrowser_def)
  have f: "\<exists>c. throws clickFails c" by (auto simp: clickFails_def)
  show ?thesis
    using release_on_normal_path[of goodBrowser "[37, 80, 68, 70]" "''policy.pdf''"] g
      release_on_normal_path[of clickFails "[37, 80, 68, 70]" "''policy.pdf''"] f
    by (simp add: goodBrowser_def clickFails_def)
qed

theorem release_skipped_counterexample:
  "throws clickFails Click
   \<and> triggerBrowserDownload clickFails [37, 80, 68, 70] ''policy.pdf'' =
       (Inl Click, [CreatedObjectURL ''blob:1'', AppendedLink ''blob:1'' ''policy.pdf''])"
  by (simp add: clickFails_def triggerBrowserDownload_def Let_def)

section \<open>Properties of the notification channel\<close>

lemma live_append [simp]: "live (xs @ ys) = live xs @ live ys"
  by (induction xs rule: live.induct) auto

lemma live_map_Some [simp]: "live (map Some xs) = xs"
  by (induction xs) auto

lemma Some_in_set_iff: "Some l \<in> set es \<longleftrightarrow> l \<in> set (live es)"
  by (induction es rule: live.induct) auto

lemma set_add_grows:
  assumes "set (live es) \<subseteq> {..<N}" and "g < N"
  shows "\<exists>new. set_add es g = es @ map Some new \<and> set new \<subseteq> {g}
           \<and> set new \<inter> set (live es) = {} \<and> distinct new
           \<and> g \<in> set (live es @ new)
           \<and> room N (set_add es g) = room N es"
proof (cases "Some g \<in> set es")
  case True
  then show ?thesis
    by (intro exI[of _ "[]"]) (simp add: set_add_def Some_in_set_iff)
next
  case False
  then have notin: "g \<notin> set (live es)" by (simp add: Some_in_set_iff)
  have fin: "finite (set (live es))" by simp
  have "card (insert g (set (live es))) \<le> N"
  proof -
    have "insert g (set (live es)) \<subseteq> {..<N}" using assms by auto
    then have "card (insert g (set (live es))) \<le> card {..<N}"
      by (intro card_mono) auto
    then show ?thesis by simp
  qed
  then have "Suc (card (set (live es))) \<le> N"
    using notin by simp
  then have "room N (es @ [Some g]) = room N es"
    using notin by (simp add: room_def)
  with False notin show ?thesis
    by (intro exI[of _ "[g]"]) (simp add: set_add_def)
qed

lemma foldl_subscribes_grows:
  assumes "only_subscribes N acts" and "set (live es) \<subseteq> {..<N}"
  shows "\<exists>new. foldl act es acts = es @ map Some new
           \<and> set new \<subseteq> {g. Subscribe g \<in> set acts}
           \<and> set new \<inter> set (live es) = {} \<and> distinct new
           \<and> {g. Subscribe g \<in> set acts} \<subseteq> set (live es @ new)
           \<and> set new \<subseteq> {..<N}
           \<and> room N (foldl act es acts) = room N es"
  using assms
proof (induction acts arbitrary: es)
  case Nil
  then show ?case by (intro exI[of _ "[]"]) simp
next
  case (Cons a acts)
  from Cons.prems(1) obtain g where a: "a = Subscribe g" and g: "g < N"
    and rest: "only_subscribes N acts"
    by (auto simp: only_subscribes_def)
  from set_add_grows[OF Cons.prems(2) g] obtain n1 where
    n1: "set_add es g = es @ map Some n1" "set n1 \<subseteq> {g}" "set n1 \<inter> set (live es) = {}"
      "distinct n1" "g \<in> set (live es @ n1)" "room N (set_add es g) = room N es"
    by blast
  have wf1: "set (live (set_add es g)) \<subseteq> {..<N}"
    using n1(1,2) Cons.prems(2) g by auto
  from Cons.IH[OF rest wf1] obtain n2 where
    n2: "foldl act (set_add es g) acts = set_add es g @ map Some n2"
      "set n2 \<subseteq> {h. Subscribe h \<in> set acts}" "set n2 \<inter> set (live (set_add es g)) = {}"
      "distinct n2" "{h. Subscribe h \<in> set acts} \<subseteq> set (live (set_add es g) @ n2)"
      "set n2 \<subseteq> {..<N}"
      "room N (foldl act (set_add es g) acts) = room N (set_add es g)"
    by blast
  show ?case
  proof (intro exI[of _ "n1 @ n2"] conjI)
    show "foldl act es (a # acts) = es @ map Some (n1 @ n2)"
      using n1(1) n2(1) by (simp add: a subscribeToasts_def)
    show "set (n1 @ n2) \<subseteq> {g. Subscribe g \<in> set (a # acts)}"
      using n1(2) n2(2) by (auto simp: a)
    show "set (n1 @ n2) \<inter> set (live es) = {}"
      using n1(1,3) n2(3) by auto
    show "distinct (n1 @ n2)"
      using n1(1,4) n2(3,4) by auto
    show "{g. Subscribe g \<in> set (a # acts)} \<subseteq> set (live es @ n1 @ n2)"
      using n1(1,5) n2(5) by (auto simp: a)
    show "set (n1 @ n2) \<subseteq> {..<N}"
      using n1(2) g n2(6) by auto
    show "room N (foldl act es (a # acts)) = room N es"
      using n1(6) n2(7) by (simp add: a subscribeToasts_def)
  qed
qed

lemma length_le_room:
  assumes "set (live es) \<subseteq> {..<N}"
  shows "length es \<le> room N es"
  by (simp add: room_def)

lemma live_drop_None: "i < length es \<Longrightarrow> es ! i = None \<Longrightarrow> live (drop i es) = live (drop (Suc i) es)"
  by (simp flip: Cons_nth_drop_Suc)

lemma live_drop_Some: "i < length es \<Longrightarrow> es ! i = Some l \<Longrightarrow> live (drop i es) = l # live (drop (Suc i) es)"
  by (simp flip: Cons_nth_drop_Suc)

lemma forEach_from_subscribers:
  assumes "\<forall>l. only_subscribes N (body l)"
      and "set (live es) \<subseteq> {..<N}"
  shows "\<exists>new. forEach_from body i es called
               = Some (es @ map Some new, called @ live (drop i (es @ map Some new)))
           \<and> set new \<inter> set (live es) = {}
           \<and> distinct new
           \<and> (\<forall>g \<in> set new. \<exists>l \<in> set (live (drop i (es @ map Some new))). Subscribe g \<in> set (body l))
           \<and> (\<forall>l \<in> set (live (drop i (es @ map Some new))). \<forall>g. Subscribe g \<in> set (body l)
                 \<longrightarrow> g \<in> set (live es @ new))"
  using assms(2)
proof (induction "room N es - i" arbitrary: i es called rule: less_induct)
  case less
  show ?case
  proof (cases "i < length es")
    case False
    then have "forEach_from body i es called = Some (es, called)"
      by (subst forEach_from.simps) simp
    with False show ?thesis
      by (intro exI[of _ "[]"]) simp
  next
    case True
    have dec: "room N es - Suc i < room N es - i"
      using True length_le_room[OF less.prems] by simp
    show ?thesis
    proof (cases "es ! i")
      case None
      then have step: "forEach_from body i es called = forEach_from body (Suc i) es called"
        using True by (subst forEach_from.simps) simp
      from less.hyps[OF dec less.prems, of called] obtain new where
        new: "forEach_from body (Suc i) es called
               = Some (es @ map Some new, called @ live (drop (Suc i) (es @ map Some new)))"
          "set new \<inter> set (live es) = {}" "distinct new"
          "\<forall>g \<in> set new. \<exists>l \<in> set (live (drop (Suc i) (es @ map Some new))). Subscribe g \<in> set (body l)"
          "\<forall>l \<in> set (live (drop (Suc i) (es @ map Some new))). \<forall>g. Subscribe g \<in> set (body l)
                 \<longrightarrow> g \<in> set (live es @ new)"
        by blast
      have "(es @ map Some new) ! i = None" "i < length (es @ map Some new)"
        using True None by (simp_all add: nth_append)
      then have "live (drop i (es @ map Some new)) = live (drop (Suc i) (es @ map Some new))"
        by (intro live_drop_None)
      with new step show ?thesis
        by (intro exI[of _ new]) simp
    next
      case (Some l)
      let ?es1 = "foldl act es (body l)"
      have step: "forEach_from body i es called = forEach_from body (Suc i) ?es1 (called @ [l])"
        using True Some by (subst forEach_from.simps) simp
      from foldl_subscribes_grows[OF assms(1)[rule_format, of l] less.prems] obtain n1 where
        n1: "?es1 = es @ map Some n1" "set n1 \<subseteq> {g. Subscribe g \<in> set (body l)}"
          "set n1 \<inter> set (live es) = {}" "distinct n1"
          "{g. Subscribe g \<in> set (body l)} \<subseteq> set (live es @ n1)"
          "set n1 \<subseteq> {..<N}" "room N ?es1 = room N es"
        by blast
      have wf1: "set (live ?es1) \<subseteq> {..<N}"
        using n1(1,6) less.prems by auto
      have dec1: "room N ?es1 - Suc i < room N es - i"
        using dec n1(7) by simp
      from less.hyps[OF dec1 wf1, of "called @ [l]"] obtain n2 where
        n2: "forEach_from body (Suc i) ?es1 (called @ [l])
               = Some (?es1 @ map Some n2, (called @ [l]) @ live (drop (Suc i) (?es1 @ map Some n2)))"
          "set n2 \<inter> set (live ?es1) = {}" "distinct n2"
          "\<forall>g \<in> set n2. \<exists>l' \<in> set (live (drop (Suc i) (?es1 @ map Some n2))). Subscribe g \<in> set (body l')"
          "\<forall>l' \<in> set (live (drop (Suc i) (?es1 @ map Some n2))). \<forall>g. Subscribe g \<in> set (body l')
                 \<longrightarrow> g \<in> set (live ?es1 @ n2)"
        by blast
      define fin where "fin = es @ map Some (n1 @ n2)"
      have fin: "?es1 @ map Some n2 = fin" by (simp add: n1(1) fin_def)
      have "fin ! i = Some l" "i < length fin"
        using True Some by (simp_all add: nth_append fin_def)
      then have dr: "live (drop i fin) = l # live (drop (Suc i) fin)"
        by (intro live_drop_Some)
      have res: "forEach_from body i es called = Some (fin, called @ live (drop i fin))"
        using step n2(1) unfolding fin dr by simp
      have sub: "\<forall>g \<in> set (n1 @ n2). \<exists>l \<in> set (live (drop i fin)). Subscribe g \<in> set (body l)"
        using n1(2) n2(4) unfolding fin dr by auto
      have cl: "\<forall>l \<in> set (live (drop i fin)). \<forall>g. Subscribe g \<in> set (body l)
                 \<longrightarrow> g \<in> set (live es @ n1 @ n2)"
        using n1(1,5) n2(5) unfolding fin dr by auto
      show ?thesis
      proof (intro exI[of _ "n1 @ n2"] conjI)
        show "forEach_from body i es called
            = Some (es @ map Some (n1 @ n2), called @ live (drop i (es @ map Some (n1 @ n2))))"
          using res unfolding fin_def .
        show "set (n1 @ n2) \<inter> set (live es) = {}"
          using n1(1,3) n2(2) by auto
        show "distinct (n1 @ n2)"
          using n1(1,4) n2(2,3) by auto
        show "\<forall>g \<in> set (n1 @ n2). \<exists>l \<in> set (live (drop i (es @ map Some (n1 @ n2)))).
                 Subscribe g \<in> set (body l)"
          using sub unfolding fin_def .
        show "\<forall>l \<in> set (live (drop i (es @ map Some (n1 @ n2)))). \<forall>g. Subscribe g \<in> set (body l)
                 \<longrightarrow> g \<in> set (live es @ n1 @ n2)"
          using cl unfolding fin_def .
      qed
    qed
  qed
qed

lemma publishToast_inert:
  assumes "\<forall>l. handlers l toast = []"
  shows "publishToast handlers toast es = Some (es, live es)"
proof -
  define N where "N = Suc (Max (insert 0 (set (live es))))"
  have wf: "set (live es) \<subseteq> {..<N}"
    by (auto simp: N_def less_Suc_eq_le)
  have sub: "\<forall>l. only_subscribes N (handlers l toast)"
    using assms by (simp add: only_subscribes_def)
  from forEach_from_subscribers[OF sub wf, of 0 "[]"] obtain new where
    new: "forEach_from (\<lambda>l. handlers l toast) 0 es []
            = Some (es @ map Some new, [] @ live (drop 0 (es @ map Some new)))"
      "\<forall>g \<in> set new. \<exists>l \<in> set (live (drop 0 (es @ map Some new))).
          Subscribe g \<in> set (handlers l toast)"
    by blast
  from new(2) assms have "new = []" by (cases new) auto
  with new(1) show ?thesis by (simp add: publishToast_def)
qed

text \<open>
  C8, as the code has it. \<open>publishToast\<close> walks the live set, not a snapshot. When the
  listeners only register listeners (from a finite population) while they run, the call
  returns; the listeners called are those registered when it began, in registration order,
  followed by those registered during the call, each once; and every listener that a
  called listener registers is itself called with the same notification.
\<close>

theorem publish_reaches_late_subscribers:
  assumes "\<forall>l. only_subscribes N (handlers l toast)"
      and "set (live es) \<subseteq> {..<N}"
  shows "\<exists>new. publishToast handlers toast es = Some (es @ map Some new, live es @ new)
           \<and> set new \<inter> set (live es) = {}
           \<and> distinct new
           \<and> (\<forall>g \<in> set new. \<exists>l \<in> set (live es @ new). Subscribe g \<in> set (handlers l toast))
           \<and> (\<forall>l \<in> set (live es @ new). \<forall>g. Subscribe g \<in> set (handlers l toast)
                 \<longrightarrow> g \<in> set (live es @ new))"
proof -
  from forEach_from_subscribers[OF assms, of 0 "[]"] obtain new where
    new: "forEach_from (\<lambda>l. handlers l toast) 0 es []
            = Some (es @ map Some new, [] @ live (drop 0 (es @ map Some new)))"
      "set new \<inter> set (live es) = {}" "distinct new"
      "\<forall>g \<in> set new. \<exists>l \<in> set (live (drop 0 (es @ map Some new))).
          Subscribe g \<in> set (handlers l toast)"
      "\<forall>l \<in> set (live (drop 0 (es @ map Some new))). \<forall>g. Subscribe g \<in> set (handlers l toast)
          \<longrightarrow> g \<in> set (live es @ new)"
    by blast
  have "publishToast handlers toast es = Some (es @ map Some new, live es @ new)"
    using new(1) by (simp add: publishToast_def)
  moreover have "\<forall>g \<in> set new. \<exists>l \<in> set (live es @ new). Subscribe g \<in> set (handlers l toast)"
    using new(4) by simp
  moreover have "\<forall>l \<in> set (live es @ new). \<forall>g. Subscribe g \<in> set (handlers l toast)
                 \<longrightarrow> g \<in> set (live es @ new)"
    using new(5) by simp
  ultimately show ?thesis
    using new(2,3) by blast
qed

theorem publish_reaches_late_subscribers_witness:
  "\<exists>new. publishToast lateSubscriber sessionExpiredToast [Some 0]
            = Some ([Some 0] @ map Some new, [0] @ new)
         \<and> 1 \<in> set new"
proof -
  have sub: "\<forall>l. only_subscribes 2 (lateSubscriber l sessionExpiredToast)"
    by (simp add: only_subscribes_def lateSubscriber_def)
  have wf: "set (live [Some 0]) \<subseteq> {..<2}"
    by simp
  from publish_reaches_late_subscribers[of 2 lateSubscriber sessionExpiredToast "[Some 0]", OF sub wf]
  obtain new where
    new: "publishToast lateSubscriber sessionExpiredToast [Some 0]
            = Some ([Some 0] @ map Some new, live [Some 0] @ new)"
      "\<forall>l \<in> set (live [Some 0] @ new). \<forall>g. Subscribe g \<in> set (lateSubscriber l sessionExpiredToast)
          \<longrightarrow> g \<in> set (live [Some 0] @ new)"
    by blast
  have "Subscribe 1 \<in> set (lateSubscriber 0 sessionExpiredToast)"
    by (simp add: lateSubscriber_def)
  with new(2) have "1 \<in> set (live [Some 0] @ new)"
    by auto
  then have "1 \<in> set new" by simp
  with new(1) show ?thesis by auto
qed

text \<open>
  The claim as worded fails: with listener 0 alone registered when the call begins, and
  listener 0 registering listener 1 as it runs, listener 1 is called in the same call.
\<close>

theorem late_subscriber_counterexample:
  "live [Some 0] = [0]
   \<and> publishToast lateSubscriber sessionExpiredToast [Some 0] = Some ([Some 0, Some 1], [0, 1])"
  by (simp add: publishToast_def forEach_from.simps lateSubscriber_def subscribeToasts_def
      set_add_def)

section \<open>Properties of the file name extraction\<close>

lemma unat16_lt: "unat (c :: 16 word) < 65536"
  using unsigned_less[of c, where 'a=nat] by simp

lemma unat16_of_nat: "n < 65536 \<Longrightarrow> unat (of_nat n :: 16 word) = n"
  by (simp add: unat_of_nat)

lemma hexval_hexdigit: "n < 16 \<Longrightarrow> hexval (hexdigit n) = Some n"
  by (auto simp: hexval_def hexdigit_def unat16_of_nat Let_def)

lemma hexdigit_not_semicolon: "n < 16 \<Longrightarrow> hexdigit n \<noteq> 59"
proof
  assume n: "n < 16" and "hexdigit n = 59"
  then have "unat (hexdigit n) = 59" by simp
  with n show False
    by (auto simp: hexdigit_def unat16_of_nat split: if_splits)
qed

lemma unreserved_not_percent: "unreserved c \<Longrightarrow> c \<noteq> 37"
  by (auto simp: unreserved_def Let_def)

lemma unreserved_not_semicolon: "unreserved c \<Longrightarrow> c \<noteq> 59"
  by (auto simp: unreserved_def Let_def)

lemma percent_tokens_render:
  "\<forall>t \<in> set ts. wf_token t \<Longrightarrow> percent_tokens (concat (map render ts)) = Some ts"
proof (induction ts)
  case Nil
  then show ?case by simp
next
  case (Cons t ts)
  then have IH: "percent_tokens (concat (map render ts)) = Some ts" by simp
  show ?case
  proof (cases t)
    case (Unit c)
    with Cons.prems have "c \<noteq> 37" by (simp add: unreserved_not_percent)
    with Unit IH show ?thesis by simp
  next
    case (Octet b)
    with Cons.prems have b: "b < 256" by simp
    then have "b div 16 < 16" "b mod 16 < 16" by simp_all
    then have "hexval (hexdigit (b div 16)) = Some (b div 16)"
      "hexval (hexdigit (b mod 16)) = Some (b mod 16)"
      by (simp_all add: hexval_hexdigit)
    with Octet IH show ?thesis by simp
  qed
qed

lemma utf8_octets_bound: "v < 1114112 \<Longrightarrow> \<forall>b \<in> set (utf8_octets v). b < 256"
  by (auto simp: utf8_octets_def)

lemma code_point_range:
  "is_lead c \<Longrightarrow> is_trail d \<Longrightarrow> 65536 \<le> code_point c d \<and> code_point c d < 1114112"
  by (auto simp: is_lead_def is_trail_def code_point_def)

lemma uri_tokens_wf: "uri_tokens s = Some ts \<Longrightarrow> \<forall>t \<in> set ts. wf_token t"
proof (induction s arbitrary: ts rule: uri_tokens.induct)
  case 1
  then show ?case by simp
next
  case (2 c cs)
  show ?case
  proof (cases "unreserved c")
    case True
    with "2.prems" obtain ts' where "uri_tokens cs = Some ts'" "ts = Unit c # ts'"
      by auto
    with "2.IH"(1)[OF True] True show ?thesis by auto
  next
    case False
    note nu = this
    show ?thesis
    proof (cases "is_lead c")
      case True
      with nu "2.prems" obtain d ds ts' where cs: "cs = d # ds" and d: "is_trail d"
        and ds: "uri_tokens ds = Some ts'"
        and ts: "ts = map Octet (utf8_octets (code_point c d)) @ ts'"
        by (auto split: list.splits if_splits)
      have "\<forall>t \<in> set ts'. wf_token t"
        using "2.IH"(2)[OF nu True cs d ds] .
      moreover have "\<forall>b \<in> set (utf8_octets (code_point c d)). b < 256"
        using code_point_range[OF True d] by (intro utf8_octets_bound) simp
      ultimately show ?thesis by (auto simp: ts)
    next
      case False
      with nu "2.prems" obtain ts' where nt: "\<not> is_trail c" and cs: "uri_tokens cs = Some ts'"
        and ts: "ts = map Octet (utf8_octets (unat c)) @ ts'"
        by (auto split: if_splits)
      have "\<forall>t \<in> set ts'. wf_token t"
        using "2.IH"(3)[OF nu False nt cs] .
      moreover have "\<forall>b \<in> set (utf8_octets (unat c)). b < 256"
        using unat16_lt[of c] by (intro utf8_octets_bound) simp
      ultimately show ?thesis by (auto simp: ts)
    qed
  qed
qed

lemma utf16_unat: "utf16 (unat c) = [c]"
  using unat16_lt[of c] by (simp add: utf16_def)

lemma utf16_code_point:
  assumes "is_lead c" and "is_trail d"
  shows "utf16 (code_point c d) = [c, d]"
proof -
  define x where "x = unat c - 55296"
  define y where "y = unat d - 56320"
  have x: "unat c = 55296 + x" "x < 1024" and y: "unat d = 56320 + y" "y < 1024"
    using assms by (auto simp: is_lead_def is_trail_def x_def y_def)
  have v: "code_point c d = 65536 + (x * 1024 + y)"
    by (simp add: code_point_def x_def y_def)
  have "(x * 1024 + y) div 1024 = x" "(x * 1024 + y) mod 1024 = y"
    using y(2) by simp_all
  then have "utf16 (code_point c d) = [of_nat (unat c), of_nat (unat d)]"
    by (simp add: utf16_def v x(1) y(1))
  then show ?thesis by simp
qed

lemma split_4096: "(v::nat) mod 4096 = v div 64 mod 64 * 64 + v mod 64"
  using mod_mult2_eq[of v 64 64] by simp

lemma split_262144: "(v::nat) mod 262144 = v div 4096 mod 64 * 4096 + v mod 4096"
  using mod_mult2_eq[of v 4096 64] by simp

lemma join3: "v div 4096 * 4096 + v div 64 mod 64 * 64 + v mod 64 = (v::nat)"
proof -
  have "v div 4096 * 4096 + v mod 4096 = v" by simp
  then show ?thesis by (simp only: split_4096 add.assoc)
qed

lemma join4:
  "v div 262144 * 262144 + v div 4096 mod 64 * 4096 + v div 64 mod 64 * 64 + v mod 64 = (v::nat)"
proof -
  have "v div 262144 * 262144 + v mod 262144 = v" by simp
  then show ?thesis by (simp only: split_262144 split_4096 add.assoc)
qed

lemma utf8_value3_octets:
  assumes "2048 \<le> v" and "v < 65536" and "scalar v"
  shows "utf8_value3 (224 + v div 4096) (128 + v div 64 mod 64) (128 + v mod 64) = Some v"
proof -
  have c: "continuation (128 + v div 64 mod 64)" "continuation (128 + v mod 64)"
    by (simp_all add: continuation_def)
  have "(224 + v div 4096 - 224) * 4096 + (128 + v div 64 mod 64 - 128) * 64
          + (128 + v mod 64 - 128) = v"
    by (simp only: add_diff_cancel_left' join3)
  then show ?thesis
    unfolding utf8_value3_def Let_def using c assms by (simp only: scalar_def) simp
qed

lemma utf8_value4_octets:
  assumes "65536 \<le> v" and "scalar v"
  shows "utf8_value4 (240 + v div 262144) (128 + v div 4096 mod 64) (128 + v div 64 mod 64)
           (128 + v mod 64) = Some v"
proof -
  have c: "continuation (128 + v div 4096 mod 64)" "continuation (128 + v div 64 mod 64)"
    "continuation (128 + v mod 64)"
    by (simp_all add: continuation_def)
  have "(240 + v div 262144 - 240) * 262144 + (128 + v div 4096 mod 64 - 128) * 4096
          + (128 + v div 64 mod 64 - 128) * 64 + (128 + v mod 64 - 128) = v"
    by (simp only: add_diff_cancel_left' join4)
  then show ?thesis
    unfolding utf8_value4_def Let_def using c assms by (simp only: scalar_def) simp
qed

lemma utf8_value2_octets:
  assumes "128 \<le> v" and "v < 2048"
  shows "utf8_value2 (192 + v div 64) (128 + v mod 64) = Some v"
  using assms by (simp add: utf8_value2_def continuation_def)

lemma utf8_units_octets:
  assumes "scalar v"
  shows "utf8_units (map Octet (utf8_octets v) @ ts) = map_option ((@) (utf16 v)) (utf8_units ts)"
proof -
  consider "v < 128" | "128 \<le> v" "v < 2048" | "2048 \<le> v" "v < 65536" | "65536 \<le> v"
    by linarith
  then show ?thesis
  proof cases
    case 1
    then have "(\<lambda>x. of_nat v # x) = (@) (utf16 v)"
      by (auto simp: utf16_def)
    with 1 show ?thesis by (simp add: utf8_octets_def)
  next
    case 2
    have o: "utf8_octets v = [192 + v div 64, 128 + v mod 64]"
      using 2 by (simp add: utf8_octets_def)
    have lead: "\<not> 192 + v div 64 < 128" "\<not> 192 + v div 64 < 192" "192 + v div 64 < 224"
      using 2 by simp_all
    show ?thesis
      unfolding o using lead utf8_value2_octets[OF 2] by simp
  next
    case 3
    have o: "utf8_octets v = [224 + v div 4096, 128 + v div 64 mod 64, 128 + v mod 64]"
      using 3 by (simp add: utf8_octets_def)
    have lead: "\<not> 224 + v div 4096 < 128" "\<not> 224 + v div 4096 < 192"
      "\<not> 224 + v div 4096 < 224" "224 + v div 4096 < 240"
      using 3 by simp_all
    show ?thesis
      unfolding o using lead utf8_value3_octets[OF 3 assms] by simp
  next
    case 4
    have o: "utf8_octets v = [240 + v div 262144, 128 + v div 4096 mod 64,
        128 + v div 64 mod 64, 128 + v mod 64]"
      using 4 by (simp add: utf8_octets_def)
    have lead: "\<not> 240 + v div 262144 < 128" "\<not> 240 + v div 262144 < 192"
      "\<not> 240 + v div 262144 < 224" "\<not> 240 + v div 262144 < 240" "240 + v div 262144 < 248"
      using 4 assms by (simp_all add: scalar_def)
    show ?thesis
      unfolding o using lead utf8_value4_octets[OF 4 assms] by simp
  qed
qed

lemma scalar_unit: "\<not> is_lead c \<Longrightarrow> \<not> is_trail c \<Longrightarrow> scalar (unat c)"
  using unat16_lt[of c] by (auto simp: scalar_def is_lead_def is_trail_def)

lemma scalar_pair: "is_lead c \<Longrightarrow> is_trail d \<Longrightarrow> scalar (code_point c d)"
  using code_point_range[of c d] by (auto simp: scalar_def)

lemma utf8_units_uri_tokens: "uri_tokens s = Some ts \<Longrightarrow> utf8_units ts = Some s"
proof (induction s arbitrary: ts rule: uri_tokens.induct)
  case 1
  then show ?case by simp
next
  case (2 c cs)
  show ?case
  proof (cases "unreserved c")
    case True
    with "2.prems" obtain ts' where "uri_tokens cs = Some ts'" "ts = Unit c # ts'"
      by auto
    with "2.IH"(1)[OF True] show ?thesis by simp
  next
    case False
    note nu = this
    show ?thesis
    proof (cases "is_lead c")
      case True
      with nu "2.prems" obtain d ds ts' where cs: "cs = d # ds" and d: "is_trail d"
        and ds: "uri_tokens ds = Some ts'"
        and ts: "ts = map Octet (utf8_octets (code_point c d)) @ ts'"
        by (auto split: list.splits if_splits)
      have "utf8_units ts' = Some ds"
        using "2.IH"(2)[OF nu True cs d ds] .
      then show ?thesis
        by (simp add: ts cs utf8_units_octets[OF scalar_pair[OF True d]]
            utf16_code_point[OF True d])
    next
      case False
      with nu "2.prems" obtain ts' where nt: "\<not> is_trail c" and cs: "uri_tokens cs = Some ts'"
        and ts: "ts = map Octet (utf8_octets (unat c)) @ ts'"
        by (auto split: if_splits)
      have "utf8_units ts' = Some cs"
        using "2.IH"(3)[OF nu False nt cs] .
      then show ?thesis
        by (simp add: ts utf8_units_octets[OF scalar_unit[OF False nt]] utf16_unat)
    qed
  qed
qed

lemma decode_encode:
  assumes "encodeURIComponent s = Some e"
  shows "decodeURIComponent e = Some s"
proof -
  from assms obtain ts where ts: "uri_tokens s = Some ts" and e: "e = concat (map render ts)"
    by (auto simp: encodeURIComponent_def)
  have "percent_tokens e = Some ts"
    unfolding e by (rule percent_tokens_render) (rule uri_tokens_wf[OF ts])
  then show ?thesis
    by (simp add: decodeURIComponent_def utf8_units_uri_tokens[OF ts])
qed

lemma render_no_semicolon: "wf_token t \<Longrightarrow> 59 \<notin> set (render t)"
proof (cases t)
  case (Unit c)
  assume "wf_token t"
  with Unit show ?thesis using unreserved_not_semicolon[of c] by auto
next
  case (Octet b)
  assume "wf_token t"
  with Octet have "b div 16 < 16" "b mod 16 < 16" by simp_all
  then have "hexdigit (b div 16) \<noteq> 59" "hexdigit (b mod 16) \<noteq> 59"
    by (simp_all add: hexdigit_not_semicolon)
  with Octet show ?thesis by auto
qed

lemma render_nonempty: "render t \<noteq> []"
  by (cases t) simp_all

lemma uri_tokens_nonempty: "uri_tokens s = Some ts \<Longrightarrow> s \<noteq> [] \<Longrightarrow> ts \<noteq> []"
  by (cases s) (auto simp: utf8_octets_def split: if_splits list.splits)

lemma encoded_shape:
  assumes "encodeURIComponent s = Some e" and "s \<noteq> []"
  shows "e \<noteq> [] \<and> 59 \<notin> set e"
proof -
  from assms obtain ts where ts: "uri_tokens s = Some ts" and e: "e = concat (map render ts)"
    by (auto simp: encodeURIComponent_def)
  have "ts \<noteq> []" using uri_tokens_nonempty[OF ts assms(2)] .
  then have "e \<noteq> []"
    unfolding e using render_nonempty by (cases ts) auto
  moreover have "59 \<notin> set e"
    unfolding e using uri_tokens_wf[OF ts] render_no_semicolon by auto
  ultimately show ?thesis by simp
qed

lemma match_ci_self: "match_ci p (p @ r) = Some r"
  by (induction p) auto

lemma utf8_at_capture:
  assumes "e \<noteq> []" and "59 \<notin> set e"
  shows "utf8_at ((js ''filename*=UTF-8'' @ [39, 39]) @ e) = Some e"
proof -
  have tw: "takeWhile (\<lambda>c. c \<noteq> 59) e = e"
    using assms(2) by (intro takeWhile_eq_all_conv[THEN iffD2]) auto
  show ?thesis
    unfolding utf8_at_def match_ci_self option.case Let_def tw using assms(1) by simp
qed

lemma exec_utf8_header:
  assumes "e \<noteq> []" and "59 \<notin> set e"
  shows "exec_from utf8_at (headerPrefix @ e) = Some e"
proof -
  have skip: "exec_from utf8_at (js ''attachment; '' @ r) = exec_from utf8_at r" for r
    by (simp add: js_def utf8_at_def lower_unit_def)
  have "headerPrefix @ e = js ''attachment; '' @ ((js ''filename*=UTF-8'' @ [39, 39]) @ e)"
    by (simp add: headerPrefix_def js_def)
  then have "exec_from utf8_at (headerPrefix @ e)
      = exec_from utf8_at ((js ''filename*=UTF-8'' @ [39, 39]) @ e)"
    by (simp only: skip)
  also have "\<dots> = Some e"
    using utf8_at_capture[OF assms]
    by (cases "(js ''filename*=UTF-8'' @ [39, 39]) @ e") simp_all
  finally show ?thesis .
qed

text \<open>
  C4, as the code has it. For a name \<open>f\<close> that is not empty and has a percent-encoding
  \<open>e\<close> (no unpaired surrogate), the header \<open>attachment; filename*=UTF-8''e\<close> gives back
  exactly \<open>f\<close>, whatever the fallback; so does any escaped text without a semicolon that
  decodes to \<open>f\<close>. (The pattern needs at least one character after the two quotes: for
  the empty name it does not match.) When the extended form matches and the captured text
  does not decode, the captured text itself is the result. \<open>extractFilename\<close> is total:
  the one call that can throw is caught.
\<close>

theorem extractFilename_round_trip:
  "(encodeURIComponent f = Some e \<and> f \<noteq> [] \<longrightarrow>
      extractFilename (Some (headerPrefix @ e)) fallback = f)
   \<and> (decodeURIComponent e' = Some f \<and> e' \<noteq> [] \<and> 59 \<notin> set e' \<longrightarrow>
      extractFilename (Some (headerPrefix @ e')) fallback = f)
   \<and> (exec_from utf8_at cd = Some cap \<and> decodeURIComponent cap = None \<longrightarrow>
      extractFilename (Some cd) fallback = cap)"
proof (intro conjI impI)
  assume g: "decodeURIComponent e' = Some f \<and> e' \<noteq> [] \<and> 59 \<notin> set e'"
  then have "exec_from utf8_at (headerPrefix @ e') = Some e'"
    by (intro exec_utf8_header) simp_all
  with g show "extractFilename (Some (headerPrefix @ e')) fallback = f"
    by (simp add: extractFilename_def)
next
  assume a: "encodeURIComponent f = Some e \<and> f \<noteq> []"
  then have shape: "e \<noteq> []" "59 \<notin> set e"
    using encoded_shape[of f e] by simp_all
  have "exec_from utf8_at (headerPrefix @ e) = Some e"
    using shape by (rule exec_utf8_header)
  moreover have "decodeURIComponent e = Some f"
    using a by (intro decode_encode) simp
  ultimately show "extractFilename (Some (headerPrefix @ e)) fallback = f"
    using shape(1) by (simp add: extractFilename_def)
next
  assume b: "exec_from utf8_at cd = Some cap \<and> decodeURIComponent cap = None"
  have "cd \<noteq> []"
  proof
    assume "cd = []"
    then have "exec_from utf8_at cd = None"
      by (simp add: utf8_at_def js_def)
    with b show False by simp
  qed
  with b show "extractFilename (Some cd) fallback = cap"
    by (simp add: extractFilename_def)
qed

theorem extractFilename_round_trip_witness:
  "extractFilename
      (Some (headerPrefix @ js ''a%20b%3Bc.pdf%C3%A9%E4%B8%AD%F0%9F%98%80'')) (js ''fallback.pdf'')
     = sampleName
   \<and> extractFilename (Some (headerPrefix @ js ''%E0%A4%A'')) (js ''fallback.pdf'') = js ''%E0%A4%A''"
proof -
  have enc: "encodeURIComponent sampleName = Some (js ''a%20b%3Bc.pdf%C3%A9%E4%B8%AD%F0%9F%98%80'')"
    by (simp add: sampleName_def js_def encodeURIComponent_def unreserved_def is_lead_def
        is_trail_def code_point_def utf8_octets_def hexdigit_def Let_def)
  have ne: "sampleName \<noteq> []"
    by (simp add: sampleName_def js_def)
  have cap: "exec_from utf8_at (headerPrefix @ js ''%E0%A4%A'') = Some (js ''%E0%A4%A'')"
    by code_simp
  have bad: "decodeURIComponent (js ''%E0%A4%A'') = None"
    by code_simp
  show ?thesis
    using extractFilename_round_trip[where f = sampleName
        and e = "js ''a%20b%3Bc.pdf%C3%A9%E4%B8%AD%F0%9F%98%80''" and fallback = "js ''fallback.pdf''"
        and cd = "headerPrefix @ js ''%E0%A4%A''" and cap = "js ''%E0%A4%A''"]
      enc ne cap bad
    by simp
qed

text \<open>
  The claim as worded fails for the empty name: its encoding is empty, the header ends
  after the two quotes, neither pattern matches, and the fallback comes back.
\<close>

theorem empty_name_counterexample:
  "encodeURIComponent [] = Some []
   \<and> extractFilename (Some (headerPrefix @ [])) (js ''fallback.pdf'') = js ''fallback.pdf''
   \<and> js ''fallback.pdf'' \<noteq> []"
proof -
  have "extractFilename (Some (headerPrefix @ [])) (js ''fallback.pdf'') = js ''fallback.pdf''"
    by code_simp
  then show ?thesis
    by (simp add: encodeURIComponent_def js_def)
qed

end
